theory Spec2Isabelle
  imports Main "HOL-Library.Sublist" "HOL-Library.Extended_Nat"
begin

section \<open>Characters and JavaScript string operations\<close>

text \<open>
  A line of the document is a \<^typ>\<open>string\<close>: one \<^typ>\<open>char\<close> per UTF-16 code unit, for the
  code units below 256. In that range the whitespace class of JavaScript (\<^verbatim>\<open>\s\<close>, and what
  \<^verbatim>\<open>trim\<close> strips) is tab, line feed, vertical tab, form feed, carriage return, space and
  the no-break space; the line terminators (what \<^verbatim>\<open>.\<close> refuses) are line feed and carriage
  return; a word character (\<^verbatim>\<open>\w\<close>) is an ASCII letter, a digit or the underscore.
\<close>

definition is_space :: "char \<Rightarrow> bool" where
  "is_space c = (c \<in> set [CHR 0x09, CHR 0x0A, CHR 0x0B, CHR 0x0C, CHR 0x0D, CHR 0x20, CHR 0xA0])"

definition is_digit :: "char \<Rightarrow> bool" where
  "is_digit c = (c \<in> set ''0123456789'')"

definition is_word :: "char \<Rightarrow> bool" where
  "is_word c = (c \<in> set ''abcdefghijklmnopqrstuvwxyzABCDEFGHIJKLMNOPQRSTUVWXYZ0123456789_'')"

definition is_line_terminator :: "char \<Rightarrow> bool" where
  "is_line_terminator c = (c = CHR 0x0A \<or> c = CHR 0x0D)"

text \<open>\<^verbatim>\<open>s.trim()\<close>\<close>

definition trim :: "string \<Rightarrow> string" where
  "trim s = rev (dropWhile is_space (rev (dropWhile is_space s)))"

text \<open>\<^verbatim>\<open>s.indexOf(sub)\<close>: the first index at which \<open>sub\<close> occurs, or -1.\<close>

fun index_from :: "string \<Rightarrow> nat \<Rightarrow> string \<Rightarrow> int" where
  "index_from sub i [] = (if sub = [] then int i else - 1)"
| "index_from sub i (c # cs) = (if prefix sub (c # cs) then int i else index_from sub (Suc i) cs)"

definition indexOf :: "string \<Rightarrow> string \<Rightarrow> int" where
  "indexOf s sub = index_from sub 0 s"

text \<open>\<^verbatim>\<open>s.lastIndexOf(sub)\<close>: the last index at which \<open>sub\<close> occurs, or -1.\<close>

fun last_index_from :: "string \<Rightarrow> nat \<Rightarrow> string \<Rightarrow> int" where
  "last_index_from sub i [] = (if sub = [] then int i else - 1)"
| "last_index_from sub i (c # cs) =
     (let r = last_index_from sub (Suc i) cs
      in if 0 \<le> r then r else if prefix sub (c # cs) then int i else - 1)"

definition lastIndexOf :: "string \<Rightarrow> string \<Rightarrow> int" where
  "lastIndexOf s sub = last_index_from sub 0 s"

text \<open>\<^verbatim>\<open>s.includes(sub)\<close>, \<^verbatim>\<open>s.startsWith(sub)\<close>, \<^verbatim>\<open>s.endsWith(sub)\<close>\<close>

definition includes_str :: "string \<Rightarrow> string \<Rightarrow> bool" where
  "includes_str s sub = (0 \<le> indexOf s sub)"

definition startsWith :: "string \<Rightarrow> string \<Rightarrow> bool" where
  "startsWith s sub = prefix sub s"

definition endsWith :: "string \<Rightarrow> string \<Rightarrow> bool" where
  "endsWith s sub = suffix sub s"

text \<open>\<^verbatim>\<open>text.split('\n')\<close>: never empty; the empty text is one empty line.\<close>

fun split_lines :: "string \<Rightarrow> string list" where
  "split_lines [] = [[]]"
| "split_lines (c # cs) =
     (if c = CHR 0x0A then [] # split_lines cs
      else (case split_lines cs of [] \<Rightarrow> [[c]] | l # ls \<Rightarrow> (c # l) # ls))"

text \<open>
  \<^verbatim>\<open>(line.match(/\{/g) || []).length\<close> for a pattern that is one literal character: the number
  of occurrences of that character in the line.
\<close>

definition count_char :: "char \<Rightarrow> string \<Rightarrow> nat" where
  "count_char c s = length (filter (\<lambda>x. x = c) s)"

text \<open>Decimal rendering of a number in a template literal.\<close>

fun digits_of_nat :: "nat \<Rightarrow> string" where
  "digits_of_nat n =
     (if n < 10 then [char_of (48 + n)] else digits_of_nat (n div 10) @ [char_of (48 + n mod 10)])"

definition string_of_int :: "int \<Rightarrow> string" where
  "string_of_int i = (if i < 0 then CHR ''-'' # digits_of_nat (nat (- i)) else digits_of_nat (nat i))"

section \<open>Regular expressions\<close>

text \<open>
  The patterns of the source, as syntax trees, and a backtracking matcher that returns the
  successful continuations in the order in which JavaScript's matcher tries them: a greedy
  quantifier tries the longest repetition first, an alternative its left branch first, an
  optional part its presence first. The first element of the list is the match that
  \<^verbatim>\<open>exec\<close>, \<^verbatim>\<open>test\<close> and \<^verbatim>\<open>match\<close> report. The quantifiers of the source's patterns all
  range over a character class, so \<open>RStar\<close> and \<open>RPlus\<close> take a class.
\<close>

datatype cls = CChar char | CRange char char | CSpace | CWord | CDigit | CDot
  | CUnion cls cls | CNot cls

fun cls_match :: "cls \<Rightarrow> char \<Rightarrow> bool" where
  "cls_match (CChar a) c = (c = a)"
| "cls_match (CRange a b) c = ((of_char a :: nat) \<le> of_char c \<and> (of_char c :: nat) \<le> of_char b)"
| "cls_match CSpace c = is_space c"
| "cls_match CWord c = is_word c"
| "cls_match CDigit c = is_digit c"
| "cls_match CDot c = (\<not> is_line_terminator c)"
| "cls_match (CUnion x y) c = (cls_match x c \<or> cls_match y c)"
| "cls_match (CNot x) c = (\<not> cls_match x c)"

datatype rx = RChar cls | RLit string | RStar cls | RPlus cls | ROpt rx | RAlt rx rx
  | RCat "rx list" | RGroup nat rx | RBol | REol | RWordB

text \<open>
  The matcher's state: the index of the next character, the character before it (for
  \<^verbatim>\<open>\b\<close>), the input from that index on, and the groups captured so far.
\<close>

record mstate =
  pos :: nat
  prev :: "char option"
  rest :: string
  caps :: "(nat \<times> string) list"

definition advance :: "nat \<Rightarrow> mstate \<Rightarrow> mstate" where
  "advance k st = (if k = 0 then st else
     st\<lparr>pos := pos st + k, prev := Some (rest st ! (k - 1)), rest := drop k (rest st)\<rparr>)"

primrec down :: "nat \<Rightarrow> nat list" where
  "down 0 = [0]"
| "down (Suc n) = Suc n # down n"

primrec down1 :: "nat \<Rightarrow> nat list" where
  "down1 0 = []"
| "down1 (Suc n) = Suc n # down1 n"

definition run :: "cls \<Rightarrow> string \<Rightarrow> nat" where
  "run c s = length (takeWhile (cls_match c) s)"

definition word_opt :: "char option \<Rightarrow> bool" where
  "word_opt x = (case x of None \<Rightarrow> False | Some c \<Rightarrow> is_word c)"

definition next_char :: "mstate \<Rightarrow> char option" where
  "next_char st = (case rest st of [] \<Rightarrow> None | x # xs \<Rightarrow> Some x)"

fun rx_match :: "rx \<Rightarrow> mstate \<Rightarrow> mstate list" where
  "rx_match (RChar c) st =
     (case rest st of [] \<Rightarrow> [] | x # xs \<Rightarrow> if cls_match c x then [advance 1 st] else [])"
| "rx_match (RLit s) st = (if prefix s (rest st) then [advance (length s) st] else [])"
| "rx_match (RStar c) st = map (\<lambda>k. advance k st) (down (run c (rest st)))"
| "rx_match (RPlus c) st = map (\<lambda>k. advance k st) (down1 (run c (rest st)))"
| "rx_match (ROpt r) st = rx_match r st @ [st]"
| "rx_match (RAlt a b) st = rx_match a st @ rx_match b st"
| "rx_match (RCat []) st = [st]"
| "rx_match (RCat (r # rs)) st = concat (map (rx_match (RCat rs)) (rx_match r st))"
| "rx_match (RGroup n r) st =
     map (\<lambda>st'. st'\<lparr>caps := (n, take (pos st' - pos st) (rest st)) # caps st'\<rparr>) (rx_match r st)"
| "rx_match RBol st = (if pos st = 0 then [st] else [])"
| "rx_match REol st = (if rest st = [] then [st] else [])"
| "rx_match RWordB st = (if word_opt (prev st) \<noteq> word_opt (next_char st) then [st] else [])"

text \<open>
  The search of \<^verbatim>\<open>exec\<close>: the pattern is tried at index \<open>i\<close>, then at each later index up to
  the end of the input. The result is the index of the match and the matcher's final state.
\<close>

fun rx_find :: "rx \<Rightarrow> nat \<Rightarrow> char option \<Rightarrow> string \<Rightarrow> (nat \<times> mstate) option" where
  "rx_find r i p [] =
     (case rx_match r \<lparr>pos = i, prev = p, rest = [], caps = []\<rparr> of
        [] \<Rightarrow> None | st # _ \<Rightarrow> Some (i, st))"
| "rx_find r i p (c # cs) =
     (case rx_match r \<lparr>pos = i, prev = p, rest = c # cs, caps = []\<rparr> of
        [] \<Rightarrow> rx_find r (Suc i) (Some c) cs | st # _ \<Rightarrow> Some (i, st))"

text \<open>\<^verbatim>\<open>regex.exec(line)\<close> and \<^verbatim>\<open>line.match(regex)\<close> on a pattern whose \<^verbatim>\<open>lastIndex\<close> is 0.\<close>

definition rx_exec :: "rx \<Rightarrow> string \<Rightarrow> (nat \<times> mstate) option" where
  "rx_exec r line = rx_find r 0 None line"

text \<open>\<^verbatim>\<open>regex.test(line)\<close>\<close>

definition rx_test :: "rx \<Rightarrow> string \<Rightarrow> bool" where
  "rx_test r line = (rx_exec r line \<noteq> None)"

text \<open>\<^verbatim>\<open>line.search(regex)\<close>: the index of the first match, or -1.\<close>

definition rx_search :: "rx \<Rightarrow> string \<Rightarrow> int" where
  "rx_search r line = (case rx_exec r line of None \<Rightarrow> - 1 | Some (i, st) \<Rightarrow> int i)"

text \<open>\<^verbatim>\<open>match[n]\<close> for a group that took part in the match, and the length of \<^verbatim>\<open>match[0]\<close>.\<close>

definition group :: "nat \<Rightarrow> mstate \<Rightarrow> string" where
  "group n st = (case map_of (caps st) n of None \<Rightarrow> [] | Some g \<Rightarrow> g)"

definition match_length :: "nat \<times> mstate \<Rightarrow> nat" where
  "match_length m = pos (snd m) - fst m"

text \<open>
  The loop \<^verbatim>\<open>while ((match = regex.exec(line)) !== null)\<close> over a pattern with the \<^verbatim>\<open>g\<close>
  flag: each search starts at \<^verbatim>\<open>lastIndex\<close>, the end of the previous match. A match that
  leaves \<^verbatim>\<open>lastIndex\<close> where the search started is found again for ever; the loop then does
  not return, which is the value \<open>None\<close>.
\<close>

fun rx_exec_all :: "rx \<Rightarrow> nat \<Rightarrow> char option \<Rightarrow> string \<Rightarrow> (nat \<times> mstate) list option" where
  "rx_exec_all r i p s =
     (case rx_find r i p s of
        None \<Rightarrow> Some []
      | Some (k, st) \<Rightarrow>
          if length (rest st) < length s
          then map_option ((#) (k, st)) (rx_exec_all r (pos st) (prev st) (rest st))
          else None)"

section \<open>Numbers\<close>

text \<open>
  \<^verbatim>\<open>parseInt\<close> on a string of decimal digits is the Number (an IEEE double) nearest to the
  integer the digits denote, ties to the even significand, and Infinity from
  \<open>2^1024 - 2^970\<close> on. The values are non-negative integers or Infinity: \<^typ>\<open>enat\<close>.
\<close>

definition decimal_value :: "string \<Rightarrow> nat" where
  "decimal_value s = foldl (\<lambda>a c. 10 * a + (of_char c - 48)) 0 s"

fun bit_length :: "nat \<Rightarrow> nat" where
  "bit_length n = (if n = 0 then 0 else Suc (bit_length (n div 2)))"

definition number_of_nat :: "nat \<Rightarrow> enat" where
  "number_of_nat n =
     (if bit_length n \<le> 53 then enat n
      else let e = bit_length n - 53; q = n div 2 ^ e; r = n mod 2 ^ e; h = 2 ^ (e - 1);
               m = (if h < r \<or> (r = h \<and> odd q) then q + 1 else q)
           in if 2 ^ 1024 \<le> m * 2 ^ e then \<infinity> else enat (m * 2 ^ e))"

definition parseInt :: "string \<Rightarrow> enat" where
  "parseInt s = number_of_nat (decimal_value s)"

section \<open>Diagnostics\<close>

datatype severity = Error | Warning | Information | Hint

text \<open>
  \<^verbatim>\<open>new vscode.Range(startLine, startCharacter, endLine, endCharacter)\<close>: the record holds the
  four numbers the source passes to the constructor. They are integers, since
  \<^verbatim>\<open>line.search\<close> can pass -1.
\<close>

record vs_range =
  startLine :: int
  startCharacter :: int
  endLine :: int
  endCharacter :: int

definition Range :: "int \<Rightarrow> int \<Rightarrow> int \<Rightarrow> int \<Rightarrow> vs_range" where
  "Range sl sc el ec = \<lparr>startLine = sl, startCharacter = sc, endLine = el, endCharacter = ec\<rparr>"

record diagnostic =
  d_range :: vs_range
  d_message :: string
  d_severity :: severity
  d_source :: string

text \<open>\<^verbatim>\<open>new vscode.Diagnostic(range, message, severity)\<close> followed by \<^verbatim>\<open>diagnostic.source = 'cscript'\<close>\<close>

definition Diagnostic :: "vs_range \<Rightarrow> string \<Rightarrow> severity \<Rightarrow> diagnostic" where
  "Diagnostic r m s = \<lparr>d_range = r, d_message = m, d_severity = s, d_source = ''cscript''\<rparr>"

definition dq :: string where
  "dq = [CHR 0x22]"

definition sq :: string where
  "sq = [CHR 0x27]"

section \<open>The rules of CScriptDiagnosticProvider\<close>

text \<open>
  Each \<^verbatim>\<open>check...\<close> method pushes diagnostics onto the list it is given; its model returns
  the diagnostics it pushes, in the order of the pushes. A method with an \<^verbatim>\<open>exec\<close> loop
  returns an option: \<open>None\<close> when the loop does not end.
\<close>

subsection \<open>checkPipelineOperators\<close>

text \<open>\<^verbatim>\<open>/\|[^>]/g\<close>\<close>

definition pipelineRegex :: rx where
  "pipelineRegex = RCat [RChar (CChar (CHR ''|'')), RChar (CNot (CChar (CHR ''>'')))]"

definition pipelineError :: "nat \<Rightarrow> nat \<Rightarrow> diagnostic" where
  "pipelineError lineNumber i =
     Diagnostic (Range (int lineNumber) (int i) (int lineNumber) (int i + 2))
       (''Invalid pipeline operator. Use '' @ dq @ ''|>'' @ dq @ '' for pipeline operations.'')
       Error"

definition pipelineWarning :: "string \<Rightarrow> nat \<Rightarrow> diagnostic" where
  "pipelineWarning line lineNumber =
     Diagnostic (Range (int lineNumber) (lastIndexOf line ''|>'') (int lineNumber) (int (length line)))
       ''Pipeline operator at end of line requires a continuation on the next line.''
       Warning"

definition checkPipelineOperators :: "string \<Rightarrow> nat \<Rightarrow> diagnostic list option" where
  "checkPipelineOperators line lineNumber =
     (case rx_exec_all pipelineRegex 0 None line of
        None \<Rightarrow> None
      | Some ms \<Rightarrow>
          Some (map (\<lambda>m. pipelineError lineNumber (fst m)) ms
                @ (if endsWith (trim line) ''|>'' then [pipelineWarning line lineNumber] else [])))"

subsection \<open>checkMatchExpressions\<close>

text \<open>\<^verbatim>\<open>/\bmatch\s*\{/g\<close>, a fresh pattern object on every call\<close>

definition matchKeyword :: rx where
  "matchKeyword = RCat [RWordB, RLit ''match'', RStar CSpace, RLit ''{'']"

text \<open>\<^verbatim>\<open>/^\s*(.+)\s*=>\s*(.*)$/\<close>\<close>

definition matchArm :: rx where
  "matchArm = RCat [RBol, RStar CSpace, RGroup 1 (RPlus CDot), RStar CSpace, RLit ''=>'',
                    RStar CSpace, RGroup 2 (RStar CDot), REol]"

text \<open>
  The loop \<^verbatim>\<open>for (let i = lineNumber; i < lines.length; i++)\<close> with its running
  \<^verbatim>\<open>braceCount\<close>; the result is \<^verbatim>\<open>foundClosing\<close>.
\<close>

function findClosing :: "string list \<Rightarrow> nat \<Rightarrow> nat \<Rightarrow> int \<Rightarrow> bool" where
  "findClosing lines lineNumber i braceCount =
     (if i < length lines
      then (let braceCount' = braceCount + int (count_char (CHR ''{'') (lines ! i))
                                         - int (count_char (CHR ''}'') (lines ! i))
            in if braceCount' = 0 \<and> lineNumber < i then True
               else findClosing lines lineNumber (Suc i) braceCount')
      else False)"
  by pat_completeness auto
termination
  by (relation "measure (\<lambda>(lines, lineNumber, i, braceCount). length lines - i)") auto

definition matchNotClosed :: "string \<Rightarrow> nat \<Rightarrow> diagnostic" where
  "matchNotClosed line lineNumber =
     Diagnostic (Range (int lineNumber) (indexOf line ''match'') (int lineNumber) (indexOf line ''match'' + 5))
       ''Match expression is not properly closed with }''
       Error"

definition matchArmNoPattern :: "string \<Rightarrow> nat \<Rightarrow> diagnostic" where
  "matchArmNoPattern line lineNumber =
     Diagnostic (Range (int lineNumber) 0 (int lineNumber) (int (length line)))
       (''Match arm must have a pattern before '' @ dq @ ''=>'' @ dq)
       Error"

definition checkMatchExpressions :: "string \<Rightarrow> nat \<Rightarrow> string list \<Rightarrow> diagnostic list" where
  "checkMatchExpressions line lineNumber lines =
     (if rx_test matchKeyword line \<and> \<not> findClosing lines lineNumber lineNumber 0
      then [matchNotClosed line lineNumber] else [])
     @ (if rx_test matchArm (trim line)
        then (case rx_exec matchArm line of
                None \<Rightarrow> []
              | Some m \<Rightarrow> if trim (group 1 (snd m)) = [] then [matchArmNoPattern line lineNumber] else [])
        else [])"

subsection \<open>checkLinqQueries\<close>

text \<open>\<^verbatim>\<open>/\bfrom\s+(\w+)\s+in\s+/\<close>, \<^verbatim>\<open>/^[a-zA-Z_$][a-zA-Z0-9_$]*$/\<close>, \<^verbatim>\<open>/\bfrom\b/\<close>, \<^verbatim>\<open>/\bselect\b/\<close>\<close>

definition fromRegex :: rx where
  "fromRegex = RCat [RWordB, RLit ''from'', RPlus CSpace, RGroup 1 (RPlus CWord), RPlus CSpace,
                     RLit ''in'', RPlus CSpace]"

definition identStart :: cls where
  "identStart = CUnion (CRange (CHR ''a'') (CHR ''z'')) (CUnion (CRange (CHR ''A'') (CHR ''Z''))
                  (CUnion (CChar (CHR ''_'')) (CChar (CHR ''$''))))"

definition identPart :: cls where
  "identPart = CUnion (CRange (CHR ''a'') (CHR ''z'')) (CUnion (CRange (CHR ''A'') (CHR ''Z''))
                 (CUnion (CRange (CHR ''0'') (CHR ''9'')) (CUnion (CChar (CHR ''_'')) (CChar (CHR ''$'')))))"

definition identifierRegex :: rx where
  "identifierRegex = RCat [RBol, RChar identStart, RStar identPart, REol]"

definition fromWord :: rx where
  "fromWord = RCat [RWordB, RLit ''from'', RWordB]"

definition selectWord :: rx where
  "selectWord = RCat [RWordB, RLit ''select'', RWordB]"

definition checkLinqQueries :: "string \<Rightarrow> nat \<Rightarrow> diagnostic list" where
  "checkLinqQueries line lineNumber =
     (case rx_exec fromRegex line of
        None \<Rightarrow> []
      | Some m \<Rightarrow>
          if \<not> rx_test identifierRegex (group 1 (snd m))
          then (let varStart = indexOf line (group 1 (snd m))
                in [Diagnostic (Range (int lineNumber) varStart (int lineNumber)
                                  (varStart + int (length (group 1 (snd m)))))
                      ''Invalid variable name in LINQ query. Must be a valid identifier.''
                      Error])
          else [])
     @ (if rx_test fromWord line \<and> \<not> rx_test selectWord line
        then [Diagnostic (Range (int lineNumber) (indexOf line ''from'') (int lineNumber)
                            (indexOf line ''from'' + 4))
                ''LINQ query should end with a select clause.''
                Information]
        else [])"

subsection \<open>checkOperatorOverloading\<close>

text \<open>\<^verbatim>\<open>/\boperator\s+([+\-*/%=<>!&|^~]+)\s*\(/\<close>\<close>

definition operatorChars :: cls where
  "operatorChars = foldr (\<lambda>c acc. CUnion (CChar c) acc) ''+-*/%=<>!&|^'' (CChar (CHR ''~''))"

definition operatorRegex :: rx where
  "operatorRegex = RCat [RWordB, RLit ''operator'', RPlus CSpace, RGroup 1 (RPlus operatorChars),
                         RStar CSpace, RLit ''('']"

definition validOperators :: "string list" where
  "validOperators = [''+'', ''-'', ''*'', ''/'', ''%'', ''=='', ''!='', ''<'', ''>'', ''<='', ''>='',
     ''&&'', ''||'', ''&'', ''|'', ''^'', ''~'', ''<<'', ''>>'', ''+='', ''-='', ''*='', ''/='', ''%='']"

text \<open>\<^verbatim>\<open>xs.join(sep)\<close>\<close>

fun join :: "string \<Rightarrow> string list \<Rightarrow> string" where
  "join sep [] = []"
| "join sep [x] = x"
| "join sep (x # y # ys) = x @ sep @ join sep (y # ys)"

definition checkOperatorOverloading :: "string \<Rightarrow> nat \<Rightarrow> diagnostic list" where
  "checkOperatorOverloading line lineNumber =
     (case rx_exec operatorRegex line of
        None \<Rightarrow> []
      | Some m \<Rightarrow>
          if group 1 (snd m) \<notin> set validOperators
          then (let opStart = indexOf line (group 1 (snd m))
                in [Diagnostic (Range (int lineNumber) opStart (int lineNumber)
                                  (opStart + int (length (group 1 (snd m)))))
                      (''Invalid operator '' @ dq @ group 1 (snd m) @ dq
                         @ '' for overloading. Valid operators: '' @ join '', '' validOperators)
                      Error])
          else [])"

subsection \<open>checkFunctionSyntax\<close>

text \<open>\<^verbatim>\<open>/\bfunction\s+(\w+)\s*\(/\<close> and \<^verbatim>\<open>/=>\s*$/\<close>\<close>

definition functionRegex :: rx where
  "functionRegex = RCat [RWordB, RLit ''function'', RPlus CSpace, RGroup 1 (RPlus CWord),
                         RStar CSpace, RLit ''('']"

definition arrowRegex :: rx where
  "arrowRegex = RCat [RLit ''=>'', RStar CSpace, REol]"

definition arrowBodyMissing :: "string \<Rightarrow> nat \<Rightarrow> diagnostic" where
  "arrowBodyMissing line lineNumber =
     Diagnostic (Range (int lineNumber) (lastIndexOf line ''=>'') (int lineNumber) (int (length line)))
       ''Arrow function body is missing.''
       Warning"

definition checkFunctionSyntax :: "string \<Rightarrow> nat \<Rightarrow> diagnostic list" where
  "checkFunctionSyntax line lineNumber =
     (case rx_exec functionRegex line of
        None \<Rightarrow> []
      | Some m \<Rightarrow>
          if \<not> rx_test identifierRegex (group 1 (snd m))
          then (let fnStart = indexOf line (group 1 (snd m))
                in [Diagnostic (Range (int lineNumber) fnStart (int lineNumber)
                                  (fnStart + int (length (group 1 (snd m)))))
                      ''Invalid function name. Must be a valid identifier.''
                      Error])
          else [])
     @ (if rx_test arrowRegex line then [arrowBodyMissing line lineNumber] else [])"

subsection \<open>checkBracesAndIndentation\<close>

text \<open>\<^verbatim>\<open>/^\t+ +/\<close>, \<^verbatim>\<open>/^ +\t/\<close> and \<^verbatim>\<open>/\S/\<close>; the two brace counts of the method are not used.\<close>

definition tabsThenSpaces :: rx where
  "tabsThenSpaces = RCat [RBol, RPlus (CChar (CHR 0x09)), RPlus (CChar (CHR 0x20))]"

definition spacesThenTab :: rx where
  "spacesThenTab = RCat [RBol, RPlus (CChar (CHR 0x20)), RChar (CChar (CHR 0x09))]"

definition nonSpace :: rx where
  "nonSpace = RChar (CNot CSpace)"

definition mixedIndentation :: "string \<Rightarrow> nat \<Rightarrow> diagnostic" where
  "mixedIndentation line lineNumber =
     Diagnostic (Range (int lineNumber) 0 (int lineNumber) (rx_search nonSpace line))
       ''Mixed tabs and spaces for indentation. Choose either tabs or spaces consistently.''
       Warning"

definition checkBracesAndIndentation :: "string \<Rightarrow> nat \<Rightarrow> string list \<Rightarrow> diagnostic list" where
  "checkBracesAndIndentation line lineNumber lines =
     (if rx_test tabsThenSpaces line \<or> rx_test spacesThenTab line
      then [mixedIndentation line lineNumber] else [])"

subsection \<open>checkGeneralSyntax\<close>

text \<open>
  checkUnclosedStrings: the character loop with its three variables \<^verbatim>\<open>inString\<close>,
  \<^verbatim>\<open>stringChar\<close> (the empty string or one character) and \<^verbatim>\<open>escaped\<close>.
\<close>

record string_scan =
  inString :: bool
  stringChar :: string
  escaped :: bool

definition string_step :: "string_scan \<Rightarrow> char \<Rightarrow> string_scan" where
  "string_step st c =
     (if escaped st then st\<lparr>escaped := False\<rparr>
      else if c = CHR 0x5C then st\<lparr>escaped := True\<rparr>
      else if \<not> inString st \<and> (c = CHR 0x22 \<or> c = CHR 0x27 \<or> c = CHR 0x60)
        then st\<lparr>inString := True, stringChar := [c]\<rparr>
      else if inString st \<and> [c] = stringChar st
        then st\<lparr>inString := False, stringChar := []\<rparr>
      else st)"

definition checkUnclosedStrings :: "string \<Rightarrow> nat \<Rightarrow> diagnostic list" where
  "checkUnclosedStrings line lineNumber =
     (let st = foldl string_step \<lparr>inString = False, stringChar = [], escaped = False\<rparr> line
      in if inString st
         then [Diagnostic (Range (int lineNumber) 0 (int lineNumber) (int (length line)))
                 (''Unclosed '' @ (if stringChar st = [CHR 0x60] then ''template literal'' else ''string'')
                    @ ''.'')
                 Error]
         else [])"

text \<open>checkInvalidIdentifiers: \<^verbatim>\<open>/\b\d+\w+\b/g\<close>\<close>

definition invalidIdentifier :: rx where
  "invalidIdentifier = RCat [RWordB, RPlus CDigit, RPlus CWord, RWordB]"

definition identifierError :: "nat \<Rightarrow> nat \<times> mstate \<Rightarrow> diagnostic" where
  "identifierError lineNumber m =
     Diagnostic (Range (int lineNumber) (int (fst m)) (int lineNumber) (int (fst m) + int (match_length m)))
       ''Identifiers cannot start with a number.''
       Error"

definition checkInvalidIdentifiers :: "string \<Rightarrow> nat \<Rightarrow> diagnostic list option" where
  "checkInvalidIdentifiers line lineNumber =
     map_option (map (identifierError lineNumber)) (rx_exec_all invalidIdentifier 0 None line)"

text \<open>checkSemicolonUsage\<close>

definition checkSemicolonUsage :: "string \<Rightarrow> nat \<Rightarrow> diagnostic list" where
  "checkSemicolonUsage line lineNumber =
     (if includes_str line '':'' \<and> endsWith (trim line) '';''
      then [Diagnostic (Range (int lineNumber) (lastIndexOf line '';'') (int lineNumber) (int (length line)))
              ''Semicolon not needed when using Python-style syntax with colons.''
              Information]
      else [])"

text \<open>checkStructSyntax: \<^verbatim>\<open>/\bstruct\s+(\w+)/\<close> and \<^verbatim>\<open>/^[A-Z][a-zA-Z0-9_]*$/\<close>\<close>

definition structRegex :: rx where
  "structRegex = RCat [RWordB, RLit ''struct'', RPlus CSpace, RGroup 1 (RPlus CWord)]"

definition pascalCase :: rx where
  "pascalCase = RCat [RBol, RChar (CRange (CHR ''A'') (CHR ''Z'')),
     RStar (CUnion (CRange (CHR ''a'') (CHR ''z'')) (CUnion (CRange (CHR ''A'') (CHR ''Z''))
              (CUnion (CRange (CHR ''0'') (CHR ''9'')) (CChar (CHR ''_''))))),
     REol]"

definition checkStructSyntax :: "string \<Rightarrow> nat \<Rightarrow> diagnostic list" where
  "checkStructSyntax line lineNumber =
     (case rx_exec structRegex line of
        None \<Rightarrow> []
      | Some m \<Rightarrow>
          if \<not> rx_test pascalCase (group 1 (snd m))
          then (let structStart = indexOf line (group 1 (snd m))
                in [Diagnostic (Range (int lineNumber) structStart (int lineNumber)
                                  (structStart + int (length (group 1 (snd m)))))
                      ''Struct names should start with an uppercase letter and follow PascalCase convention.''
                      Warning])
          else [])"

text \<open>
  checkAutoProperties: \<^verbatim>\<open>/\{\s*(get|set)[;\s]*(get|set)?[;\s]*\}/\<close> guards the check, and
  \<^verbatim>\<open>/\{\s*([^}]+)\s*\}/\<close> extracts the block whose content is examined.
\<close>

definition semicolonOrSpace :: cls where
  "semicolonOrSpace = CUnion (CChar (CHR '';'')) CSpace"

definition autoPropertyRegex :: rx where
  "autoPropertyRegex = RCat [RLit ''{'', RStar CSpace, RGroup 1 (RAlt (RLit ''get'') (RLit ''set'')),
     RStar semicolonOrSpace, ROpt (RGroup 2 (RAlt (RLit ''get'') (RLit ''set''))),
     RStar semicolonOrSpace, RLit ''}'']"

definition braceBlock :: rx where
  "braceBlock = RCat [RLit ''{'', RStar CSpace, RGroup 1 (RPlus (CNot (CChar (CHR ''}'')))),
     RStar CSpace, RLit ''}'']"

definition autoPropertyError :: "string \<Rightarrow> nat \<Rightarrow> diagnostic" where
  "autoPropertyError line lineNumber =
     Diagnostic (Range (int lineNumber) (indexOf line ''{'') (int lineNumber) (indexOf line ''}'' + 1))
       (''Auto-property must include at least one of '' @ dq @ ''get'' @ dq @ '' or '' @ dq @ ''set'' @ dq @ ''.'')
       Error"

definition checkAutoProperties :: "string \<Rightarrow> nat \<Rightarrow> diagnostic list" where
  "checkAutoProperties line lineNumber =
     (if rx_test autoPropertyRegex line
      then (case rx_exec braceBlock line of
              None \<Rightarrow> []
            | Some m \<Rightarrow>
                if \<not> includes_str (group 1 (snd m)) ''get'' \<and> \<not> includes_str (group 1 (snd m)) ''set''
                then [autoPropertyError line lineNumber] else [])
      else [])"

text \<open>checkRangeOperators: \<^verbatim>\<open>/(\d+)\.\.(\d+|_)/g\<close>\<close>

definition rangeRegex :: rx where
  "rangeRegex = RCat [RGroup 1 (RPlus CDigit), RLit ''..'', RGroup 2 (RAlt (RPlus CDigit) (RLit ''_''))]"

definition rangeError :: "nat \<Rightarrow> nat \<times> mstate \<Rightarrow> diagnostic" where
  "rangeError lineNumber m =
     Diagnostic (Range (int lineNumber) (int (fst m)) (int lineNumber) (int (fst m) + int (match_length m)))
       ''Range start must be less than range end.''
       Error"

definition rangeCheck :: "nat \<Rightarrow> nat \<times> mstate \<Rightarrow> diagnostic list" where
  "rangeCheck lineNumber m =
     (if group 2 (snd m) \<noteq> ''_''
      then (let start = parseInt (group 1 (snd m)); end = parseInt (group 2 (snd m))
            in if end \<le> start then [rangeError lineNumber m] else [])
      else [])"

definition checkRangeOperators :: "string \<Rightarrow> nat \<Rightarrow> diagnostic list option" where
  "checkRangeOperators line lineNumber =
     map_option (\<lambda>ms. concat (map (rangeCheck lineNumber) ms)) (rx_exec_all rangeRegex 0 None line)"

text \<open>checkWithExpressions: \<^verbatim>\<open>/\bwith\s*\{/\<close>\<close>

definition withRegex :: rx where
  "withRegex = RCat [RWordB, RLit ''with'', RStar CSpace, RLit ''{'']"

definition checkWithExpressions :: "string \<Rightarrow> nat \<Rightarrow> diagnostic list" where
  "checkWithExpressions line lineNumber =
     (if rx_test withRegex line \<and> (\<not> includes_str line ''='' \<or> startsWith (trim line) ''with'')
      then [Diagnostic (Range (int lineNumber) (indexOf line ''with'') (int lineNumber)
                          (indexOf line ''with'' + 4))
              (dq @ ''with'' @ dq @ '' expression must be used with an assignment or return statement.'')
              Warning]
      else [])"

definition checkGeneralSyntax :: "string \<Rightarrow> nat \<Rightarrow> diagnostic list option" where
  "checkGeneralSyntax line lineNumber =
     (case checkInvalidIdentifiers line lineNumber of
        None \<Rightarrow> None
      | Some identifiers \<Rightarrow>
          (case checkRangeOperators line lineNumber of
             None \<Rightarrow> None
           | Some ranges \<Rightarrow>
               Some (checkUnclosedStrings line lineNumber @ identifiers
                     @ checkSemicolonUsage line lineNumber @ checkStructSyntax line lineNumber
                     @ checkAutoProperties line lineNumber @ ranges
                     @ checkWithExpressions line lineNumber)))"

subsection \<open>checkMultiLineConstructs\<close>

text \<open>The net count of an opening and a closing character over all lines, as the loop adds it up.\<close>

definition netCount :: "char \<Rightarrow> char \<Rightarrow> string list \<Rightarrow> int" where
  "netCount opening closing lines =
     foldl (\<lambda>n line. n + int (count_char opening line) - int (count_char closing line)) 0 lines"

definition lastLineRange :: "string list \<Rightarrow> vs_range" where
  "lastLineRange lines =
     (let lastLineIndex = int (length lines) - 1
      in Range lastLineIndex 0 lastLineIndex (int (length (lines ! (length lines - 1)))))"

definition unclosedBraces :: "string list \<Rightarrow> int \<Rightarrow> diagnostic" where
  "unclosedBraces lines braceCount =
     Diagnostic (lastLineRange lines)
       (string_of_int braceCount @ '' unclosed brace(s). Missing closing brace '' @ sq @ ''}'' @ sq @ ''.'')
       Error"

definition extraBraces :: "string list \<Rightarrow> int \<Rightarrow> diagnostic" where
  "extraBraces lines braceCount =
     Diagnostic (lastLineRange lines) (string_of_int \<bar>braceCount\<bar> @ '' extra closing brace(s).'') Error"

definition unclosedBrackets :: "string list \<Rightarrow> int \<Rightarrow> diagnostic" where
  "unclosedBrackets lines bracketCount =
     Diagnostic (lastLineRange lines)
       (string_of_int bracketCount @ '' unclosed bracket(s). Missing closing bracket '' @ sq @ '']'' @ sq @ ''.'')
       Error"

definition unclosedParens :: "string list \<Rightarrow> int \<Rightarrow> diagnostic" where
  "unclosedParens lines parenCount =
     Diagnostic (lastLineRange lines)
       (string_of_int parenCount @ '' unclosed parenthesis(es). Missing closing parenthesis ''
          @ sq @ '')'' @ sq @ ''.'')
       Error"

definition checkMultiLineConstructs :: "string list \<Rightarrow> diagnostic list" where
  "checkMultiLineConstructs lines =
     (let braceCount = netCount (CHR ''{'') (CHR ''}'') lines;
          bracketCount = netCount (CHR ''['') (CHR '']'') lines;
          parenCount = netCount (CHR ''('') (CHR '')'') lines
      in (if 0 < braceCount then [unclosedBraces lines braceCount]
          else if braceCount < 0 then [extraBraces lines braceCount] else [])
         @ (if 0 < bracketCount then [unclosedBrackets lines bracketCount] else [])
         @ (if 0 < parenCount then [unclosedParens lines parenCount] else []))"

subsection \<open>updateDiagnostics\<close>

text \<open>The body of the loop over the lines: the seven calls, in their order.\<close>

definition checkLine :: "string list \<Rightarrow> nat \<Rightarrow> diagnostic list option" where
  "checkLine lines lineIndex =
     (let line = lines ! lineIndex
      in case checkPipelineOperators line lineIndex of
           None \<Rightarrow> None
         | Some pipeline \<Rightarrow>
             (case checkGeneralSyntax line lineIndex of
                None \<Rightarrow> None
              | Some general \<Rightarrow>
                  Some (pipeline @ checkMatchExpressions line lineIndex lines
                        @ checkLinqQueries line lineIndex @ checkOperatorOverloading line lineIndex
                        @ checkFunctionSyntax line lineIndex
                        @ checkBracesAndIndentation line lineIndex lines @ general)))"

function scanLines :: "string list \<Rightarrow> nat \<Rightarrow> diagnostic list \<Rightarrow> diagnostic list option" where
  "scanLines lines lineIndex diagnostics =
     (if lineIndex < length lines
      then (case checkLine lines lineIndex of
              None \<Rightarrow> None
            | Some found \<Rightarrow> scanLines lines (Suc lineIndex) (diagnostics @ found))
      else Some diagnostics)"
  by pat_completeness auto
termination
  by (relation "measure (\<lambda>(lines, lineIndex, diagnostics). length lines - lineIndex)") auto

text \<open>The diagnostics the method computes for a text: those of the lines, then the document's.\<close>

definition scan :: "string \<Rightarrow> diagnostic list option" where
  "scan text =
     (let lines = split_lines text
      in map_option (\<lambda>diagnostics. diagnostics @ checkMultiLineConstructs lines) (scanLines lines 0 []))"

text \<open>
  The diagnostic collection of the extension maps a document's URI to its diagnostics;
  \<^verbatim>\<open>config.get('diagnostics.enabled', true)\<close> is the setting, or true when it is not set.
  The result of \<open>updateDiagnostics\<close> is the collection after the call, or \<open>None\<close> if the call
  does not return.
\<close>

record 'u text_document =
  uri :: 'u
  getText :: string

type_synonym 'u diagnostic_collection = "'u \<Rightarrow> diagnostic list option"

definition config_get :: "bool option \<Rightarrow> bool \<Rightarrow> bool" where
  "config_get setting dflt = (case setting of None \<Rightarrow> dflt | Some b \<Rightarrow> b)"

definition updateDiagnostics ::
  "bool option \<Rightarrow> 'u text_document \<Rightarrow> 'u diagnostic_collection \<Rightarrow> 'u diagnostic_collection option" where
  "updateDiagnostics diagnostics_enabled document diagnosticCollection =
     (if \<not> config_get diagnostics_enabled True then Some diagnosticCollection
      else map_option (\<lambda>diagnostics. diagnosticCollection(uri document \<mapsto> diagnostics))
             (scan (getText document)))"

section \<open>Notions used in the statements\<close>

text \<open>
  The recursive equations of the loops are unfolded by hand in the proofs; as rewrite rules
  they would be applied for ever.
\<close>

declare digits_of_nat.simps [simp del]
declare bit_length.simps [simp del]
declare rx_exec_all.simps [simp del]
declare findClosing.simps [simp del]
declare scanLines.simps [simp del]


text \<open>
  The scan that the \<^verbatim>\<open>exec\<close> loop of checkPipelineOperators performs, written on the
  characters: the columns of the matches of \<^verbatim>\<open>/\|[^>]/g\<close>, from column \<open>i\<close> on.
\<close>

definition bad_pipe :: "char \<Rightarrow> char \<Rightarrow> bool" where
  "bad_pipe c d = (c = CHR ''|'' \<and> d \<noteq> CHR ''>'')"

fun pipe_scan :: "nat \<Rightarrow> string \<Rightarrow> nat list" where
  "pipe_scan i (c # d # cs) =
     (if bad_pipe c d then i # pipe_scan (i + 2) cs else pipe_scan (Suc i) (d # cs))"
| "pipe_scan i [c] = []"
| "pipe_scan i [] = []"

text \<open>
  For the pattern \<^verbatim>\<open>/\b\d+\w+\b/g\<close> of checkInvalidIdentifiers: the test of \<^verbatim>\<open>\b\<close> in a
  state of the matcher; the condition under which the pattern matches at a position, given
  the character before it and the input from it on; and the state in which that match ends,
  which is the end of the run of word characters that starts at the position.
\<close>

definition at_boundary :: "mstate \<Rightarrow> bool" where
  "at_boundary st = (word_opt (prev st) \<noteq> word_opt (next_char st))"

definition ident_cond :: "char option \<Rightarrow> string \<Rightarrow> bool" where
  "ident_cond p s = (\<not> word_opt p \<and> 1 \<le> run CDigit s \<and> 2 \<le> run CWord s)"

definition ident_end :: "nat \<Rightarrow> string \<Rightarrow> mstate" where
  "ident_end i s = \<lparr>pos = i + run CWord s, prev = Some (s ! (run CWord s - 1)),
                     rest = drop (run CWord s) s, caps = []\<rparr>"






section \<open>The document-global bracket balance\<close>

lemma netCount_sum:
  "foldl (\<lambda>n line. n + int (count_char a line) - int (count_char b line)) k ls
     = k + (\<Sum>l\<leftarrow>ls. int (count_char a l) - int (count_char b l))"
  by (induction ls arbitrary: k) auto

lemma split_lines_nonempty: "split_lines t \<noteq> []"
  by (induction t) (auto split: list.splits)

lemma count_split_lines:
  "c \<noteq> CHR 0x0A \<Longrightarrow> (\<Sum>l\<leftarrow>split_lines t. int (count_char c l)) = int (count_char c t)"
proof (induction t)
  case Nil
  then show ?case by (simp add: count_char_def)
next
  case (Cons x t)
  then show ?case
    using split_lines_nonempty[of t]
    by (cases "split_lines t") (auto simp: count_char_def)
qed

lemma netCount_split_lines:
  "a \<noteq> CHR 0x0A \<Longrightarrow> b \<noteq> CHR 0x0A \<Longrightarrow>
   netCount a b (split_lines t) = int (count_char a t) - int (count_char b t)"
  unfolding netCount_def netCount_sum
  by (simp add: sum_list_subtractf count_split_lines)

lemma lastLineRange_last:
  "lines \<noteq> [] \<Longrightarrow>
   lastLineRange lines = Range (int (length lines) - 1) 0 (int (length lines) - 1) (int (length (last lines)))"
  by (simp add: lastLineRange_def Let_def last_conv_nth)

lemma multi_line_diag_fields:
  "d_severity (unclosedBraces ls n) = Error" "d_range (unclosedBraces ls n) = lastLineRange ls"
  "d_severity (extraBraces ls n) = Error" "d_range (extraBraces ls n) = lastLineRange ls"
  "d_severity (unclosedBrackets ls n) = Error" "d_range (unclosedBrackets ls n) = lastLineRange ls"
  "d_severity (unclosedParens ls n) = Error" "d_range (unclosedParens ls n) = lastLineRange ls"
  by (simp_all add: unclosedBraces_def extraBraces_def unclosedBrackets_def unclosedParens_def
      Diagnostic_def)

text \<open>
  C8. The counts of the three bracket pairs over the whole text decide the diagnostics of
  checkMultiLineConstructs: none when each pair is balanced; otherwise one diagnostic per
  pair with more opening than closing characters, and one for more closing than opening
  braces, but none for more closing brackets or parentheses. Every one of them is an Error
  whose range is the whole last line of the document.
\<close>

theorem multi_line_bracket_balance:
  "(count_char (CHR ''{'') text = count_char (CHR ''}'') text
      \<and> count_char (CHR ''['') text = count_char (CHR '']'') text
      \<and> count_char (CHR ''('') text = count_char (CHR '')'') text
      \<longrightarrow> checkMultiLineConstructs (split_lines text) = [])
   \<and> checkMultiLineConstructs (split_lines text) =
       (if count_char (CHR ''}'') text < count_char (CHR ''{'') text
        then [unclosedBraces (split_lines text)
                (int (count_char (CHR ''{'') text) - int (count_char (CHR ''}'') text))]
        else if count_char (CHR ''{'') text < count_char (CHR ''}'') text
        then [extraBraces (split_lines text)
                (int (count_char (CHR ''{'') text) - int (count_char (CHR ''}'') text))]
        else [])
       @ (if count_char (CHR '']'') text < count_char (CHR ''['') text
          then [unclosedBrackets (split_lines text)
                  (int (count_char (CHR ''['') text) - int (count_char (CHR '']'') text))]
          else [])
       @ (if count_char (CHR '')'') text < count_char (CHR ''('') text
          then [unclosedParens (split_lines text)
                  (int (count_char (CHR ''('') text) - int (count_char (CHR '')'') text))]
          else [])
   \<and> (\<forall>d \<in> set (checkMultiLineConstructs (split_lines text)).
         d_severity d = Error
         \<and> d_range d = Range (int (length (split_lines text)) - 1) 0
                          (int (length (split_lines text)) - 1)
                          (int (length (last (split_lines text)))))"
proof -
  have eq: "checkMultiLineConstructs (split_lines text) =
       (if count_char (CHR ''}'') text < count_char (CHR ''{'') text
        then [unclosedBraces (split_lines text)
                (int (count_char (CHR ''{'') text) - int (count_char (CHR ''}'') text))]
        else if count_char (CHR ''{'') text < count_char (CHR ''}'') text
        then [extraBraces (split_lines text)
                (int (count_char (CHR ''{'') text) - int (count_char (CHR ''}'') text))]
        else [])
       @ (if count_char (CHR '']'') text < count_char (CHR ''['') text
          then [unclosedBrackets (split_lines text)
                  (int (count_char (CHR ''['') text) - int (count_char (CHR '']'') text))]
          else [])
       @ (if count_char (CHR '')'') text < count_char (CHR ''('') text
          then [unclosedParens (split_lines text)
                  (int (count_char (CHR ''('') text) - int (count_char (CHR '')'') text))]
          else [])"
    by (simp add: checkMultiLineConstructs_def netCount_split_lines Let_def)
  have rng: "lastLineRange (split_lines text) =
      Range (int (length (split_lines text)) - 1) 0 (int (length (split_lines text)) - 1)
        (int (length (last (split_lines text))))"
    by (rule lastLineRange_last) (rule split_lines_nonempty)
  have ball: "\<forall>d \<in> set (checkMultiLineConstructs (split_lines text)).
         d_severity d = Error
         \<and> d_range d = Range (int (length (split_lines text)) - 1) 0
                          (int (length (split_lines text)) - 1)
                          (int (length (last (split_lines text))))"
    unfolding eq by (auto simp: multi_line_diag_fields rng split: if_splits)
  have bal: "count_char (CHR ''{'') text = count_char (CHR ''}'') text
      \<and> count_char (CHR ''['') text = count_char (CHR '']'') text
      \<and> count_char (CHR ''('') text = count_char (CHR '')'') text
      \<longrightarrow> checkMultiLineConstructs (split_lines text) = []"
    unfolding eq by simp
  show ?thesis by (rule conjI[OF bal conjI[OF eq ball]])
qed

theorem multi_line_bracket_balance_witness:
  "count_char (CHR ''{'') ''f(x) { a[1] }'' = count_char (CHR ''}'') ''f(x) { a[1] }''
   \<and> count_char (CHR ''['') ''f(x) { a[1] }'' = count_char (CHR '']'') ''f(x) { a[1] }''
   \<and> count_char (CHR ''('') ''f(x) { a[1] }'' = count_char (CHR '')'') ''f(x) { a[1] }''
   \<and> checkMultiLineConstructs (split_lines ''f(x) { a[1] }'') = []
   \<and> checkMultiLineConstructs (split_lines ''{ ] )'') = [unclosedBraces [''{ ] )''] 1]
   \<and> d_range (unclosedBraces [''{ ] )''] 1) = Range 0 0 0 5"
proof -
  have a: "count_char (CHR ''{'') ''f(x) { a[1] }'' = count_char (CHR ''}'') ''f(x) { a[1] }''
   \<and> count_char (CHR ''['') ''f(x) { a[1] }'' = count_char (CHR '']'') ''f(x) { a[1] }''
   \<and> count_char (CHR ''('') ''f(x) { a[1] }'' = count_char (CHR '')'') ''f(x) { a[1] }''"
    by (simp add: count_char_def)
  have b: "checkMultiLineConstructs (split_lines ''f(x) { a[1] }'') = []"
    by (rule multi_line_bracket_balance[THEN conjunct1, THEN mp, OF a])
  have c: "checkMultiLineConstructs (split_lines ''{ ] )'') = [unclosedBraces [''{ ] )''] 1]"
    using multi_line_bracket_balance[of "''{ ] )''", THEN conjunct2, THEN conjunct1]
    by (simp add: count_char_def)
  have d: "d_range (unclosedBraces [''{ ] )''] 1) = Range 0 0 0 5"
    by (simp add: multi_line_diag_fields lastLineRange_def)
  from a b c d show ?thesis by simp
qed

section \<open>The configuration flag\<close>

text \<open>
  C9. With the setting \<^verbatim>\<open>diagnostics.enabled\<close> set to false, updateDiagnostics returns
  with the diagnostic collection as it was: nothing is set and nothing is cleared, so the
  diagnostics stored for the document stay.
\<close>

theorem updateDiagnostics_disabled_unchanged:
  "updateDiagnostics (Some False) document diagnosticCollection = Some diagnosticCollection"
  by (simp add: updateDiagnostics_def config_get_def)

section \<open>Inputs on which the rules differ from their description\<close>

text \<open>
  C1. On the one-line document that is a tab followed by a space, the scan produces the
  mixed-indentation warning with end column -1: the line has no character that is not
  whitespace, so \<^verbatim>\<open>line.search(/\S/)\<close> is -1, which is no column of the line.
\<close>

theorem mixed_indentation_end_column_negative:
  "scan [CHR 0x09, CHR 0x20] = Some [mixedIndentation [CHR 0x09, CHR 0x20] 0]
   \<and> d_range (mixedIndentation [CHR 0x09, CHR 0x20] 0) = Range 0 0 0 (- 1)
   \<and> d_severity (mixedIndentation [CHR 0x09, CHR 0x20] 0) = Warning"
  by code_simp

text \<open>
  C3. A line whose content before \<^verbatim>\<open>=>\<close> is only whitespace gets no diagnostic from
  checkMatchExpressions: the arm pattern is tested on the trimmed line, where its group
  \<^verbatim>\<open>(.+)\<close> needs a character before the arrow.
\<close>

theorem match_arm_without_pattern_not_reported:
  "rx_test matchArm (trim ''  => value'') = False
   \<and> checkMatchExpressions ''  => value'' 0 [''  => value''] = []"
  by code_simp

text \<open>
  C4. The line \<^verbatim>\<open>let incomplete = () => ;\<close> gets no diagnostic at all: the arrow pattern
  \<^verbatim>\<open>/=>\s*$/\<close> needs the arrow to be the last thing on the line, and here a semicolon
  follows it.
\<close>

theorem incomplete_arrow_not_reported:
  "rx_test arrowRegex ''let incomplete = () => ;'' = False
   \<and> checkFunctionSyntax ''let incomplete = () => ;'' 0 = []
   \<and> scan ''let incomplete = () => ;'' = Some []"
  by code_simp

text \<open>
  C6. A brace block with a semicolon but neither \<^verbatim>\<open>get\<close> nor \<^verbatim>\<open>set\<close> gets no diagnostic
  from checkAutoProperties, since the guarding pattern asks for one of the two words; and a
  block that has \<^verbatim>\<open>get\<close> is reported when another brace block stands before it on the line.
\<close>

theorem auto_property_without_accessor_not_reported:
  "rx_test autoPropertyRegex ''value { ; }'' = False
   \<and> checkAutoProperties ''value { ; }'' 0 = []
   \<and> checkAutoProperties ''{ x } { get; }'' 0 = [autoPropertyError ''{ x } { get; }'' 0]"
  by code_simp

section \<open>The closure of a match expression\<close>










section \<open>The pipeline rule\<close>

lemma rx_exec_all_None: "rx_find r i p s = None \<Longrightarrow> rx_exec_all r i p s = Some []"
  by (subst rx_exec_all.simps) simp

lemma rx_exec_all_Some:
  "rx_find r i p s = Some (k, st) \<Longrightarrow> length (rest st) < length s \<Longrightarrow>
   rx_exec_all r i p s = map_option ((#) (k, st)) (rx_exec_all r (pos st) (prev st) (rest st))"
  by (subst rx_exec_all.simps) simp

lemma rx_match_pipeline:
  "rx_match pipelineRegex \<lparr>pos = i, prev = p, rest = s, caps = []\<rparr> =
     (case s of
        c # d # cs \<Rightarrow> if bad_pipe c d
                      then [\<lparr>pos = i + 2, prev = Some d, rest = cs, caps = []\<rparr>] else []
      | _ \<Rightarrow> [])"
  by (simp add: pipelineRegex_def advance_def bad_pipe_def split: list.splits)

lemma rx_find_pipeline_rest:
  "rx_find pipelineRegex i p s = Some (k, st) \<Longrightarrow> length (rest st) + 2 \<le> length s"
proof (induction s arbitrary: i p)
  case Nil
  then show ?case by (simp add: rx_match_pipeline)
next
  case (Cons c s)
  show ?case
  proof (cases "rx_match pipelineRegex \<lparr>pos = i, prev = p, rest = c # s, caps = []\<rparr>")
    case Nil
    then have "rx_find pipelineRegex (Suc i) (Some c) s = Some (k, st)"
      using Cons.prems by simp
    from Cons.IH[OF this] show ?thesis by simp
  next
    case (Cons st' sts)
    then have "st = st'" using Cons.prems by simp
    with Cons show ?thesis
      by (auto simp: rx_match_pipeline split: list.splits if_splits)
  qed
qed

lemma rx_exec_all_pipeline:
  "\<exists>ms. rx_exec_all pipelineRegex i p s = Some ms \<and> map fst ms = pipe_scan i s"
proof (induction i s arbitrary: p rule: pipe_scan.induct)
  case (1 i c d cs)
  show ?case
  proof (cases "bad_pipe c d")
    case True
    define st where "st = \<lparr>pos = i + 2, prev = Some d, rest = cs, caps = []\<rparr>"
    have f: "rx_find pipelineRegex i p (c # d # cs) = Some (i, st)"
      using True by (simp add: rx_match_pipeline st_def)
    have "rx_exec_all pipelineRegex i p (c # d # cs) =
        map_option ((#) (i, st)) (rx_exec_all pipelineRegex (i + 2) (Some d) cs)"
      using rx_exec_all_Some[OF f] by (simp add: st_def)
    moreover obtain ms where "rx_exec_all pipelineRegex (i + 2) (Some d) cs = Some ms"
      "map fst ms = pipe_scan (i + 2) cs"
      using "1.IH"(1)[OF True, of "Some d"] by blast
    ultimately show ?thesis using True by simp
  next
    case False
    have f: "rx_find pipelineRegex i p (c # d # cs) = rx_find pipelineRegex (Suc i) (Some c) (d # cs)"
      using False by (simp add: rx_match_pipeline)
    obtain ms where ms: "rx_exec_all pipelineRegex (Suc i) (Some c) (d # cs) = Some ms"
      "map fst ms = pipe_scan (Suc i) (d # cs)"
      using "1.IH"(2)[OF False, of "Some c"] by blast
    have "rx_exec_all pipelineRegex i p (c # d # cs) = rx_exec_all pipelineRegex (Suc i) (Some c) (d # cs)"
    proof (cases "rx_find pipelineRegex (Suc i) (Some c) (d # cs)")
      case None
      then show ?thesis using f by (simp add: rx_exec_all_None)
    next
      case (Some m)
      obtain k st where m: "m = (k, st)" by (cases m)
      have r: "length (rest st) + 2 \<le> length (d # cs)"
        using rx_find_pipeline_rest Some m by blast
      have "rx_exec_all pipelineRegex i p (c # d # cs) =
          map_option ((#) (k, st)) (rx_exec_all pipelineRegex (pos st) (prev st) (rest st))"
        using rx_exec_all_Some[of pipelineRegex i p "c # d # cs" k st] f Some m r by simp
      moreover have "rx_exec_all pipelineRegex (Suc i) (Some c) (d # cs) =
          map_option ((#) (k, st)) (rx_exec_all pipelineRegex (pos st) (prev st) (rest st))"
        using rx_exec_all_Some[of pipelineRegex "Suc i" "Some c" "d # cs" k st] Some m r by simp
      ultimately show ?thesis by simp
    qed
    then show ?thesis using ms False by simp
  qed
next
  case (2 i c)
  have "rx_find pipelineRegex i p [c] = None"
    by (simp add: rx_match_pipeline)
  then show ?case by (simp add: rx_exec_all_None)
next
  case (3 i)
  have "rx_find pipelineRegex i p [] = None"
    by (simp add: rx_match_pipeline)
  then show ?case by (simp add: rx_exec_all_None)
qed

lemma pipe_scan_sound:
  "k \<in> set (pipe_scan i s) \<Longrightarrow>
     i \<le> k \<and> k - i + 1 < length s \<and> s ! (k - i) = CHR ''|'' \<and> s ! (k - i + 1) \<noteq> CHR ''>''"
proof (induction i s rule: pipe_scan.induct)
  case (1 i c d cs)
  show ?case
  proof (cases "bad_pipe c d")
    case True
    show ?thesis
    proof (cases "k = i")
      case True
      then show ?thesis using \<open>bad_pipe c d\<close> by (simp add: bad_pipe_def)
    next
      case False
      then have "k \<in> set (pipe_scan (i + 2) cs)" using "1.prems" True by simp
      from "1.IH"(1)[OF True this] have h: "i + 2 \<le> k" "k - (i + 2) + 1 < length cs"
        "cs ! (k - (i + 2)) = CHR ''|''" "cs ! (k - (i + 2) + 1) \<noteq> CHR ''>''" by auto
      obtain t where t: "k = i + 2 + t" using h(1) by (metis le_Suc_ex)
      show ?thesis using h unfolding t by simp
    qed
  next
    case False
    then have "k \<in> set (pipe_scan (Suc i) (d # cs))" using "1.prems" by simp
    from "1.IH"(2)[OF False this] have h: "Suc i \<le> k" "k - Suc i + 1 < length (d # cs)"
        "(d # cs) ! (k - Suc i) = CHR ''|''" "(d # cs) ! (k - Suc i + 1) \<noteq> CHR ''>''" by auto
    obtain t where t: "k = Suc i + t" using h(1) by (metis le_Suc_ex)
    show ?thesis using h unfolding t by simp
  qed
qed simp_all

lemma pipe_scan_complete:
  "j + 1 < length s \<Longrightarrow> s ! j = CHR ''|'' \<Longrightarrow> s ! (j + 1) \<noteq> CHR ''>'' \<Longrightarrow>
     i + j \<in> set (pipe_scan i s) \<or> (0 < j \<and> i + j - 1 \<in> set (pipe_scan i s))"
proof (induction i s arbitrary: j rule: pipe_scan.induct)
  case (1 i c d cs)
  show ?case
  proof (cases "bad_pipe c d")
    case True
    consider "j = 0" | "j = 1" | t where "j = t + 2"
      by (metis One_nat_def Suc_1 add_2_eq_Suc' not0_implies_Suc)
    then show ?thesis
    proof cases
      case 1
      then show ?thesis using True by simp
    next
      case 2
      then show ?thesis using True by simp
    next
      case 3
      have "t + 1 < length cs" "cs ! t = CHR ''|''" "cs ! (t + 1) \<noteq> CHR ''>''"
        using "1.prems" unfolding 3 by simp_all
      from "1.IH"(1)[OF True this]
      have "i + 2 + t \<in> set (pipe_scan (i + 2) cs) \<or> (0 < t \<and> i + 2 + t - 1 \<in> set (pipe_scan (i + 2) cs))" .
      then show ?thesis using True unfolding 3 by (auto simp: add.commute add.left_commute)
    qed
  next
    case False
    show ?thesis
    proof (cases j)
      case 0
      then show ?thesis using False "1.prems" by (simp add: bad_pipe_def)
    next
      case (Suc t)
      have "t + 1 < length (d # cs)" "(d # cs) ! t = CHR ''|''" "(d # cs) ! (t + 1) \<noteq> CHR ''>''"
        using "1.prems" unfolding Suc by simp_all
      from "1.IH"(2)[OF False this]
      have "Suc i + t \<in> set (pipe_scan (Suc i) (d # cs))
           \<or> (0 < t \<and> Suc i + t - 1 \<in> set (pipe_scan (Suc i) (d # cs)))" .
      then show ?thesis using False unfolding Suc by auto
    qed
  qed
qed simp_all

lemma pipe_scan_sorted:
  "sorted_wrt (\<lambda>a b. a + 2 \<le> b) (pipe_scan i s)"
proof (induction i s rule: pipe_scan.induct)
  case (1 i c d cs)
  show ?case
  proof (cases "bad_pipe c d")
    case True
    have "\<forall>k \<in> set (pipe_scan (i + 2) cs). i + 2 \<le> k"
      using pipe_scan_sound by blast
    then show ?thesis using True "1.IH"(1)[OF True] by simp
  next
    case False
    then show ?thesis using "1.IH"(2)[OF False] by simp
  qed
qed simp_all


lemma checkPipelineOperators_scan:
  "checkPipelineOperators line lineNumber =
     Some (map (pipelineError lineNumber) (pipe_scan 0 line)
           @ (if endsWith (trim line) ''|>'' then [pipelineWarning line lineNumber] else []))"
proof -
  obtain ms where ms: "rx_exec_all pipelineRegex 0 None line = Some ms" "map fst ms = pipe_scan 0 line"
    using rx_exec_all_pipeline by blast
  have "map (\<lambda>m. pipelineError lineNumber (fst m)) ms = map (pipelineError lineNumber) (map fst ms)"
    by simp
  then show ?thesis
    unfolding checkPipelineOperators_def ms(1) using ms(2) by simp
qed

text \<open>
  C2 (amended). The Errors of checkPipelineOperators on a line are those of a scan from
  left to right whose matches do not overlap: they are reported at increasing columns at
  least two apart; every reported column holds a \<^verbatim>\<open>|\<close> that is followed, on the line, by a
  character other than \<^verbatim>\<open>>\<close>, so a \<^verbatim>\<open>|\<close> that ends the line is never reported; and every
  \<^verbatim>\<open>|\<close> followed by a character other than \<^verbatim>\<open>>\<close> is reported unless the match reported one
  column before it has taken it (as for the second \<^verbatim>\<open>|\<close> of \<^verbatim>\<open>||\<close>). The range of an Error
  is the two characters at its column. The line \<^verbatim>\<open>let badPipeline = data | filter;\<close> yields
  exactly one Error, at column 23, and a line whose every \<^verbatim>\<open>|\<close> is followed by \<^verbatim>\<open>>\<close> yields
  no Error, and no diagnostic when its trimmed text does not end in \<^verbatim>\<open>|>\<close>.
\<close>

theorem pipeline_errors_characterised:
  "\<exists>ps. checkPipelineOperators line lineNumber =
          Some (map (pipelineError lineNumber) ps
                @ (if endsWith (trim line) ''|>'' then [pipelineWarning line lineNumber] else []))
      \<and> sorted_wrt (\<lambda>a b. a + 2 \<le> b) ps
      \<and> (\<forall>k \<in> set ps. k + 1 < length line \<and> line ! k = CHR ''|'' \<and> line ! (k + 1) \<noteq> CHR ''>'')
      \<and> (\<forall>j. j + 1 < length line \<and> line ! j = CHR ''|'' \<and> line ! (j + 1) \<noteq> CHR ''>''
             \<longrightarrow> j \<in> set ps \<or> (0 < j \<and> j - 1 \<in> set ps))
      \<and> ((\<forall>j < length line. line ! j = CHR ''|'' \<longrightarrow> j + 1 < length line \<and> line ! (j + 1) = CHR ''>'')
             \<longrightarrow> ps = [])
      \<and> (\<forall>k. d_range (pipelineError lineNumber k)
                 = Range (int lineNumber) (int k) (int lineNumber) (int k + 2)
               \<and> d_severity (pipelineError lineNumber k) = Error)
      \<and> checkPipelineOperators ''let badPipeline = data | filter;'' lineNumber
            = Some [pipelineError lineNumber 23]"
proof -
  define ps where "ps = pipe_scan 0 line"
  have e: "checkPipelineOperators line lineNumber =
          Some (map (pipelineError lineNumber) ps
                @ (if endsWith (trim line) ''|>'' then [pipelineWarning line lineNumber] else []))"
    unfolding ps_def by (rule checkPipelineOperators_scan)
  have s: "sorted_wrt (\<lambda>a b. a + 2 \<le> b) ps"
    unfolding ps_def by (rule pipe_scan_sorted)
  have a: "\<forall>k \<in> set ps. k + 1 < length line \<and> line ! k = CHR ''|'' \<and> line ! (k + 1) \<noteq> CHR ''>''"
    unfolding ps_def using pipe_scan_sound[of _ 0 line] by auto
  have b: "\<forall>j. j + 1 < length line \<and> line ! j = CHR ''|'' \<and> line ! (j + 1) \<noteq> CHR ''>''
             \<longrightarrow> j \<in> set ps \<or> (0 < j \<and> j - 1 \<in> set ps)"
    unfolding ps_def using pipe_scan_complete[of _ line 0] by auto
  have c: "(\<forall>j < length line. line ! j = CHR ''|'' \<longrightarrow> j + 1 < length line \<and> line ! (j + 1) = CHR ''>'')
             \<longrightarrow> ps = []"
  proof
    assume w: "\<forall>j < length line. line ! j = CHR ''|'' \<longrightarrow> j + 1 < length line \<and> line ! (j + 1) = CHR ''>''"
    show "ps = []"
    proof (rule ccontr)
      assume "ps \<noteq> []"
      then obtain k where k: "k \<in> set ps" by (cases ps) auto
      with a have "k + 1 < length line" "line ! k = CHR ''|''" "line ! (k + 1) \<noteq> CHR ''>''" by auto
      with w show False by auto
    qed
  qed
  have d: "\<forall>k. d_range (pipelineError lineNumber k)
                 = Range (int lineNumber) (int k) (int lineNumber) (int k + 2)
               \<and> d_severity (pipelineError lineNumber k) = Error"
    by (simp add: pipelineError_def Diagnostic_def)
  have p: "pipe_scan 0 ''let badPipeline = data | filter;'' = [23]"
    by code_simp
  have t: "\<not> endsWith (trim ''let badPipeline = data | filter;'') ''|>''"
    by code_simp
  have f: "checkPipelineOperators ''let badPipeline = data | filter;'' lineNumber
            = Some [pipelineError lineNumber 23]"
    unfolding checkPipelineOperators_scan p using t by simp
  show ?thesis
    by (rule exI[of _ ps], rule conjI[OF e conjI[OF s conjI[OF a conjI[OF b conjI[OF c conjI[OF d f]]]]]])
qed

theorem pipeline_errors_characterised_witness:
  "''a | b'' ! 2 = CHR ''|'' \<and> ''a | b'' ! 3 \<noteq> CHR ''>''
   \<and> (\<exists>ps. checkPipelineOperators ''a | b'' 0 = Some (map (pipelineError 0) ps) \<and> 2 \<in> set ps)
   \<and> checkPipelineOperators ''let goodPipeline = data |> filter |> map;'' 0 = Some []"
proof -
  have h: "''a | b'' ! 2 = CHR ''|''" "''a | b'' ! 3 \<noteq> CHR ''>''" by simp_all
  have t: "\<not> endsWith (trim ''a | b'') ''|>''" by code_simp
  obtain ps where ps:
     "checkPipelineOperators ''a | b'' 0 =
          Some (map (pipelineError 0) ps
                @ (if endsWith (trim ''a | b'') ''|>'' then [pipelineWarning ''a | b'' 0] else []))"
     "\<forall>k \<in> set ps. k + 1 < length ''a | b'' \<and> ''a | b'' ! k = CHR ''|'' \<and> ''a | b'' ! (k + 1) \<noteq> CHR ''>''"
     "\<forall>j. j + 1 < length ''a | b'' \<and> ''a | b'' ! j = CHR ''|'' \<and> ''a | b'' ! (j + 1) \<noteq> CHR ''>''
             \<longrightarrow> j \<in> set ps \<or> (0 < j \<and> j - 1 \<in> set ps)"
    using pipeline_errors_characterised[of "''a | b''" 0] by blast
  have "2 \<in> set ps \<or> 1 \<in> set ps"
    using ps(3)[rule_format, of 2] by simp
  moreover have "1 \<notin> set ps"
    using ps(2) by auto
  ultimately have m: "2 \<in> set ps" by simp
  have e: "checkPipelineOperators ''a | b'' 0 = Some (map (pipelineError 0) ps)"
    using ps(1) t by simp
  have g: "\<forall>j < length ''let goodPipeline = data |> filter |> map;''.
      ''let goodPipeline = data |> filter |> map;'' ! j = CHR ''|'' \<longrightarrow>
      j + 1 < length ''let goodPipeline = data |> filter |> map;''
      \<and> ''let goodPipeline = data |> filter |> map;'' ! (j + 1) = CHR ''>''"
    by code_simp
  have t2: "\<not> endsWith (trim ''let goodPipeline = data |> filter |> map;'') ''|>''" by code_simp
  obtain qs where qs:
     "checkPipelineOperators ''let goodPipeline = data |> filter |> map;'' 0 =
          Some (map (pipelineError 0) qs
                @ (if endsWith (trim ''let goodPipeline = data |> filter |> map;'') ''|>''
                   then [pipelineWarning ''let goodPipeline = data |> filter |> map;'' 0] else []))"
     "(\<forall>j < length ''let goodPipeline = data |> filter |> map;''.
      ''let goodPipeline = data |> filter |> map;'' ! j = CHR ''|'' \<longrightarrow>
      j + 1 < length ''let goodPipeline = data |> filter |> map;''
      \<and> ''let goodPipeline = data |> filter |> map;'' ! (j + 1) = CHR ''>'') \<longrightarrow> qs = []"
    using pipeline_errors_characterised[of "''let goodPipeline = data |> filter |> map;''" 0] by blast
  have "qs = []" using qs(2) g by blast
  then have z: "checkPipelineOperators ''let goodPipeline = data |> filter |> map;'' 0 = Some []"
    using qs(1) t2 by simp
  from h m e z show ?thesis by blast
qed

text \<open>
  A \<^verbatim>\<open>|\<close> that is the last character of its line is not reported, and of the two
  characters of \<^verbatim>\<open>||\<close> only the first is.
\<close>

theorem pipe_at_end_of_line_not_reported:
  "''a |'' ! 2 = CHR ''|'' \<and> length ''a |'' = 3 \<and> checkPipelineOperators ''a |'' 0 = Some []
   \<and> ''a || b'' ! 3 = CHR ''|'' \<and> ''a || b'' ! 4 \<noteq> CHR ''>''
   \<and> checkPipelineOperators ''a || b'' 0 = Some [pipelineError 0 2]"
  by code_simp

section \<open>The leading-digit rule\<close>

lemma set_down1: "set (down1 n) = {1..n}"
  by (induction n) auto

lemma set_down: "set (down n) = {0..n}"
  by (induction n) auto


lemma advance_advance:
  "k \<le> length (rest st) \<Longrightarrow> advance j (advance k st) = advance (k + j) st"
  by (cases "k = 0"; cases "j = 0") (auto simp: advance_def nth_append add.commute)

lemma advance_fields:
  "0 < k \<Longrightarrow> pos (advance k st) = pos st + k"
  "0 < k \<Longrightarrow> prev (advance k st) = Some (rest st ! (k - 1))"
  "rest (advance k st) = drop k (rest st)"
  "caps (advance k st) = caps st"
  by (auto simp: advance_def)

lemma tw_nth: "m < length (takeWhile P s) \<Longrightarrow> P (s ! m)"
  by (metis nth_mem set_takeWhileD takeWhile_nth)

lemma tw_stop: "length (takeWhile P s) < length s \<Longrightarrow> \<not> P (s ! length (takeWhile P s))"
  by (rule nth_length_takeWhile)

lemma tw_drop: "k \<le> length (takeWhile P s) \<Longrightarrow> takeWhile P (drop k s) = drop k (takeWhile P s)"
proof (induction s arbitrary: k)
  case Nil
  then show ?case by simp
next
  case (Cons a s)
  then show ?case by (cases k) (auto split: if_splits)
qed

lemma tw_mono: "(\<And>c. P c \<Longrightarrow> Q c) \<Longrightarrow> length (takeWhile P s) \<le> length (takeWhile Q s)"
  by (induction s) auto

lemma is_digit_word: "is_digit c \<Longrightarrow> is_word c"
  by (auto simp: is_digit_def is_word_def)

lemma rx_match_wb: "rx_match RWordB st = (if at_boundary st then [st] else [])"
  by (simp add: at_boundary_def)

lemma ident_match_mem:
  "x \<in> set (rx_match invalidIdentifier st) \<longleftrightarrow>
     at_boundary st \<and>
     (\<exists>k \<in> {1..run CDigit (rest st)}. \<exists>j \<in> {1..run CWord (rest (advance k st))}.
        at_boundary (advance j (advance k st)) \<and> x = advance j (advance k st))"
  by (auto simp: invalidIdentifier_def set_down1 rx_match_wb simp del: rx_match.simps(12))

lemma run_digit_le_word: "run CDigit s \<le> run CWord s"
  unfolding run_def by (rule tw_mono) (simp add: is_digit_word)

lemma run_le_length: "run c s \<le> length s"
  unfolding run_def by (rule length_takeWhile_le)

lemma run_word_drop: "k \<le> run CWord s \<Longrightarrow> run CWord (drop k s) = run CWord s - k"
  unfolding run_def by (simp add: tw_drop)

lemma wb_advance:
  assumes "1 \<le> m" "m \<le> run CWord (rest st)"
  shows "at_boundary (advance m st) \<longleftrightarrow> m = run CWord (rest st)"
proof -
  have ml: "m \<le> length (rest st)" using assms(2) run_le_length[of CWord "rest st"] by simp
  have "m - 1 < run CWord (rest st)" using assms by simp
  then have "is_word (rest st ! (m - 1))"
    unfolding run_def using tw_nth[of "m - 1" "cls_match CWord" "rest st"] by simp
  then have p: "word_opt (prev (advance m st))"
    using assms(1) by (simp add: advance_fields word_opt_def)
  have n: "word_opt (next_char (advance m st)) \<longleftrightarrow> m < run CWord (rest st)"
  proof (cases "m < run CWord (rest st)")
    case True
    then have w: "is_word (rest st ! m)"
      unfolding run_def using tw_nth[of m "cls_match CWord" "rest st"] by simp
    have "m < length (rest st)" using True run_le_length[of CWord "rest st"] by simp
    then have "drop m (rest st) = rest st ! m # drop (Suc m) (rest st)"
      by (simp add: Cons_nth_drop_Suc)
    then show ?thesis using True w by (simp add: next_char_def advance_fields word_opt_def)
  next
    case False
    then have e: "m = run CWord (rest st)" using assms(2) by simp
    show ?thesis
    proof (cases "m < length (rest st)")
      case True
      then have "\<not> is_word (rest st ! m)"
        using tw_stop[of "cls_match CWord" "rest st"] e unfolding run_def by simp
      moreover have "drop m (rest st) = rest st ! m # drop (Suc m) (rest st)"
        using True by (simp add: Cons_nth_drop_Suc)
      ultimately show ?thesis using False by (simp add: next_char_def advance_fields word_opt_def)
    next
      case False
      then have "drop m (rest st) = []" by simp
      then show ?thesis using \<open>\<not> m < run CWord (rest st)\<close>
        by (simp add: next_char_def advance_fields word_opt_def)
    qed
  qed
  show ?thesis unfolding at_boundary_def using p n assms(2) by auto
qed

lemma start_wb:
  assumes "1 \<le> run CDigit (rest st)"
  shows "at_boundary st \<longleftrightarrow> \<not> word_opt (prev st)"
proof -
  have "0 < run CWord (rest st)" using assms run_digit_le_word[of "rest st"] by simp
  then have "is_word (rest st ! 0)" "rest st \<noteq> []"
    unfolding run_def using tw_nth[of 0 "cls_match CWord" "rest st"] by auto
  then have "word_opt (next_char st)"
    by (cases "rest st") (auto simp: next_char_def word_opt_def)
  then show ?thesis unfolding at_boundary_def by auto
qed

lemma ident_match_set:
  "set (rx_match invalidIdentifier st) =
     (if ident_cond (prev st) (rest st) then {advance (run CWord (rest st)) st} else {})"
proof -
  let ?nd = "run CDigit (rest st)" and ?r = "run CWord (rest st)"
  have inner: "\<And>k j. 1 \<le> k \<Longrightarrow> k \<le> ?nd \<Longrightarrow> 1 \<le> j \<Longrightarrow> j \<le> run CWord (rest (advance k st)) \<Longrightarrow>
      advance j (advance k st) = advance (k + j) st \<and> k + j \<le> ?r \<and>
      (at_boundary (advance j (advance k st)) \<longleftrightarrow> k + j = ?r)"
  proof -
    fix k j assume kj: "1 \<le> k" "k \<le> ?nd" "1 \<le> j" "j \<le> run CWord (rest (advance k st))"
    have kr: "k \<le> ?r" using kj(2) run_digit_le_word[of "rest st"] by simp
    have kl: "k \<le> length (rest st)" using kr run_le_length[of CWord "rest st"] by simp
    have "run CWord (rest (advance k st)) = ?r - k"
      using run_word_drop[OF kr] by (simp add: advance_fields)
    then have le: "k + j \<le> ?r" using kj(4) kr by simp
    have a: "advance j (advance k st) = advance (k + j) st" by (rule advance_advance[OF kl])
    show "advance j (advance k st) = advance (k + j) st \<and> k + j \<le> ?r \<and>
      (at_boundary (advance j (advance k st)) \<longleftrightarrow> k + j = ?r)"
      unfolding a using wb_advance[of "k + j" st] le kj(1) by simp
  qed
  show ?thesis
  proof (cases "ident_cond (prev st) (rest st)")
    case True
    then have c: "\<not> word_opt (prev st)" "1 \<le> ?nd" "2 \<le> ?r" by (auto simp: ident_cond_def)
    have "\<And>x. x \<in> set (rx_match invalidIdentifier st) \<longleftrightarrow> x = advance ?r st"
    proof
      fix x assume "x \<in> set (rx_match invalidIdentifier st)"
      then obtain k j where kj: "1 \<le> k" "k \<le> ?nd" "1 \<le> j" "j \<le> run CWord (rest (advance k st))"
        "at_boundary (advance j (advance k st))"
        "x = advance j (advance k st)"
        unfolding ident_match_mem by auto
      from inner[OF kj(1-4)] kj(5,6) show "x = advance ?r st" by simp
    next
      fix x assume x: "x = advance ?r st"
      have kr: "(1::nat) \<le> ?r" using c(3) by simp
      have r1: "run CWord (rest (advance 1 st)) = ?r - 1"
        using run_word_drop[OF kr] by (simp add: advance_fields)
      have j: "?r - 1 \<le> run CWord (rest (advance 1 st))" "1 \<le> ?r - 1" using r1 c(3) by simp_all
      have sum: "1 + (?r - 1) = ?r" using c(3) by simp
      have i1: "advance (?r - 1) (advance 1 st) = advance (1 + (?r - 1)) st \<and> 1 + (?r - 1) \<le> ?r \<and>
         (at_boundary (advance (?r - 1) (advance 1 st)) \<longleftrightarrow> 1 + (?r - 1) = ?r)"
        by (rule inner[OF _ c(2) j(2) j(1)]) simp
      have eq: "advance (?r - 1) (advance 1 st) = advance ?r st"
        using i1 sum by (simp only:)
      have b1: "at_boundary (advance (?r - 1) (advance 1 st))"
        using i1 sum by blast
      have bst: "at_boundary st" using start_wb[OF c(2)] c(1) by simp
      have k1: "1 \<in> {1..?nd}" using c(2) by simp
      have j1: "?r - 1 \<in> {1..run CWord (rest (advance 1 st))}" using j by simp
      have x1: "x = advance (?r - 1) (advance 1 st)" using x eq by simp
      show "x \<in> set (rx_match invalidIdentifier st)"
        unfolding ident_match_mem using bst k1 j1 b1 x1 by blast
    qed
    then show ?thesis using True by auto
  next
    case False
    have "\<And>x. x \<notin> set (rx_match invalidIdentifier st)"
    proof
      fix x assume "x \<in> set (rx_match invalidIdentifier st)"
      then obtain k j where kj: "at_boundary st"
        "1 \<le> k" "k \<le> ?nd" "1 \<le> j" "j \<le> run CWord (rest (advance k st))"
        unfolding ident_match_mem by auto
      from inner[OF kj(2-5)] have "k + j \<le> ?r" by simp
      then have "2 \<le> ?r" "1 \<le> ?nd" using kj by simp_all
      moreover have "\<not> word_opt (prev st)" using start_wb[OF \<open>1 \<le> ?nd\<close>] kj(1) by simp
      ultimately show False using False by (simp add: ident_cond_def)
    qed
    then have "rx_match invalidIdentifier st = []"
      by (cases "rx_match invalidIdentifier st") (simp, metis list.set_intros(1))
    then show ?thesis using False by simp
  qed
qed

lemma ident_match_list:
  "(\<not> ident_cond (prev st) (rest st) \<longrightarrow> rx_match invalidIdentifier st = [])
   \<and> (ident_cond (prev st) (rest st) \<longrightarrow>
        (\<exists>tl. rx_match invalidIdentifier st = advance (run CWord (rest st)) st # tl))"
proof (cases "rx_match invalidIdentifier st")
  case Nil
  then show ?thesis using ident_match_set[of st] by (auto split: if_splits)
next
  case (Cons a as)
  then have "a \<in> set (rx_match invalidIdentifier st)" by simp
  then show ?thesis using ident_match_set[of st] Cons by (auto split: if_splits)
qed


lemma rx_exec_all_skip:
  assumes prog: "\<And>i p s k st. rx_find r i p s = Some (k, st) \<Longrightarrow> length (rest st) < length s"
    and nomatch: "rx_match r \<lparr>pos = i, prev = p, rest = c # cs, caps = []\<rparr> = []"
  shows "rx_exec_all r i p (c # cs) = rx_exec_all r (Suc i) (Some c) cs"
proof -
  have f: "rx_find r i p (c # cs) = rx_find r (Suc i) (Some c) cs"
    using nomatch by simp
  show ?thesis
  proof (cases "rx_find r (Suc i) (Some c) cs")
    case None
    then show ?thesis using f by (simp add: rx_exec_all_None)
  next
    case (Some m)
    obtain k st where m: "m = (k, st)" by (cases m)
    have l: "length (rest st) < length cs" using prog Some m by blast
    have "rx_exec_all r i p (c # cs) =
        map_option ((#) (k, st)) (rx_exec_all r (pos st) (prev st) (rest st))"
      using rx_exec_all_Some[of r i p "c # cs" k st] f Some m l by simp
    moreover have "rx_exec_all r (Suc i) (Some c) cs =
        map_option ((#) (k, st)) (rx_exec_all r (pos st) (prev st) (rest st))"
      using rx_exec_all_Some[of r "Suc i" "Some c" cs k st] Some m l by simp
    ultimately show ?thesis by simp
  qed
qed

lemma rx_exec_all_total:
  assumes prog: "\<And>i p s k st. rx_find r i p s = Some (k, st) \<Longrightarrow> i \<le> k \<and> k \<le> pos st \<and> length (rest st) < length s"
  shows "\<exists>ms. rx_exec_all r i p s = Some ms \<and> (\<forall>m \<in> set ms. i \<le> fst m)"
proof (induction "length s" arbitrary: i p s rule: less_induct)
  case less
  show ?case
  proof (cases "rx_find r i p s")
    case None
    then show ?thesis by (simp add: rx_exec_all_None)
  next
    case (Some m)
    obtain k st where m: "m = (k, st)" by (cases m)
    have l: "i \<le> k" "k \<le> pos st" "length (rest st) < length s" using prog Some m by blast+
    obtain ms where ms: "rx_exec_all r (pos st) (prev st) (rest st) = Some ms"
       "\<forall>m \<in> set ms. pos st \<le> fst m"
      using less[OF l(3)] by blast
    have "rx_exec_all r i p s = Some ((k, st) # ms)"
      using rx_exec_all_Some[of r i p s k st] Some m l(3) ms(1) by simp
    moreover have "\<forall>m \<in> set ((k, st) # ms). i \<le> fst m"
      using ms(2) l(1,2) by auto
    ultimately show ?thesis by blast
  qed
qed

lemma start_state_fields:
  "pos \<lparr>pos = i, prev = p, rest = s, caps = []\<rparr> = i"
  "prev \<lparr>pos = i, prev = p, rest = s, caps = []\<rparr> = p"
  "rest \<lparr>pos = i, prev = p, rest = s, caps = []\<rparr> = s"
  by simp_all

lemma ident_end_fields:
  "pos (ident_end i s) = i + run CWord s"
  "prev (ident_end i s) = Some (s ! (run CWord s - 1))"
  "rest (ident_end i s) = drop (run CWord s) s"
  by (simp_all add: ident_end_def)

lemma ident_at:
  "(\<not> ident_cond p s \<longrightarrow> rx_match invalidIdentifier \<lparr>pos = i, prev = p, rest = s, caps = []\<rparr> = [])
   \<and> (ident_cond p s \<longrightarrow>
        (\<exists>tl. rx_match invalidIdentifier \<lparr>pos = i, prev = p, rest = s, caps = []\<rparr> = ident_end i s # tl))"
proof -
  have "ident_cond p s \<Longrightarrow> advance (run CWord s) \<lparr>pos = i, prev = p, rest = s, caps = []\<rparr> = ident_end i s"
    by (simp add: advance_def ident_cond_def ident_end_def)
  then show ?thesis
    using ident_match_list[of "\<lparr>pos = i, prev = p, rest = s, caps = []\<rparr>"]
    by (auto simp: start_state_fields)
qed

lemma ident_cond_nonempty: "ident_cond p s \<Longrightarrow> s \<noteq> [] \<and> 2 \<le> run CWord s \<and> run CWord s \<le> length s"
  using run_le_length[of CWord s] by (auto simp: ident_cond_def run_def)

lemma rx_find_ident_here:
  "ident_cond p s \<Longrightarrow> rx_find invalidIdentifier i p s = Some (i, ident_end i s)"
proof -
  assume c: "ident_cond p s"
  then obtain tl where t: "rx_match invalidIdentifier \<lparr>pos = i, prev = p, rest = s, caps = []\<rparr> = ident_end i s # tl"
    using ident_at[of p s i] by blast
  obtain x xs where s: "s = x # xs" using ident_cond_nonempty[OF c] by (cases s) auto
  show ?thesis unfolding s using t[unfolded s] by simp
qed

lemma rx_find_ident_skip:
  "\<not> ident_cond p (c # s) \<Longrightarrow>
     rx_match invalidIdentifier \<lparr>pos = i, prev = p, rest = c # s, caps = []\<rparr> = []
     \<and> rx_find invalidIdentifier i p (c # s) = rx_find invalidIdentifier (Suc i) (Some c) s"
  using ident_at[of p "c # s" i] by simp

lemma rx_find_ident:
  "rx_find invalidIdentifier i p s = Some (k, st) \<Longrightarrow>
     i \<le> k \<and> k \<le> pos st \<and> length (rest st) < length s"
proof (induction s arbitrary: i p)
  case Nil
  have "\<not> ident_cond p []" using ident_cond_nonempty[of p "[]"] by blast
  then have "rx_match invalidIdentifier \<lparr>pos = i, prev = p, rest = [], caps = []\<rparr> = []"
    using ident_at[of p "[]" i] by blast
  then show ?case using Nil by simp
next
  case (Cons c s)
  show ?case
  proof (cases "ident_cond p (c # s)")
    case True
    have "k = i \<and> st = ident_end i (c # s)"
      using Cons.prems rx_find_ident_here[OF True, of i] by simp
    then show ?thesis using ident_cond_nonempty[OF True] by (simp add: ident_end_fields)
  next
    case False
    then have "rx_find invalidIdentifier (Suc i) (Some c) s = Some (k, st)"
      using Cons.prems rx_find_ident_skip[OF False, of i] by simp
    from Cons.IH[OF this] show ?thesis by simp
  qed
qed

lemma rx_find_ident_prog:
  "rx_find invalidIdentifier i p s = Some (k, st) \<Longrightarrow> length (rest st) < length s"
  using rx_find_ident by blast

lemma run_word_digits:
  assumes "\<forall>c \<in> set ds. is_digit c" "post = [] \<or> \<not> is_word (hd post)"
  shows "run CWord (ds @ post) = length ds"
proof -
  have "takeWhile (cls_match CWord) post = []"
    using assms(2) by (cases post) auto
  moreover have "\<And>x. x \<in> set ds \<Longrightarrow> cls_match CWord x"
    using assms(1) is_digit_word by simp
  ultimately show ?thesis unfolding run_def by (simp add: takeWhile_append2)
qed

lemma run_digit_pos: "ds \<noteq> [] \<Longrightarrow> \<forall>c \<in> set ds. is_digit c \<Longrightarrow> 1 \<le> run CDigit (ds @ post)"
  by (cases ds) (auto simp: run_def)

lemma run_word_pre:
  assumes "pre \<noteq> []" "\<not> is_word (last pre)"
  shows "run CWord (pre @ sfx) = run CWord pre \<and> run CWord pre < length pre"
proof -
  have m: "last pre \<in> set pre" "\<not> cls_match CWord (last pre)" using assms by simp_all
  then have "takeWhile (cls_match CWord) (pre @ sfx) = takeWhile (cls_match CWord) pre"
    by (rule takeWhile_append1)
  moreover have "length (takeWhile (cls_match CWord) pre) < length pre"
  proof (rule ccontr)
    assume "\<not> length (takeWhile (cls_match CWord) pre) < length pre"
    then have "length (takeWhile (cls_match CWord) pre) = length pre"
      using length_takeWhile_le[of "cls_match CWord" pre] by simp
    then have "takeWhile (cls_match CWord) pre = pre"
      by (metis append_eq_conv_conj takeWhile_dropWhile_id take_all_iff order_refl)
    then have "\<forall>x \<in> set pre. cls_match CWord x" by (simp add: takeWhile_eq_all_conv)
    with m show False by blast
  qed
  ultimately show ?thesis by (simp add: run_def)
qed


lemma ident_total:
  "\<exists>ms. rx_exec_all invalidIdentifier i p s = Some ms \<and> (\<forall>m \<in> set ms. i \<le> fst m)"
  by (rule rx_exec_all_total) (rule rx_find_ident)

lemma ident_exec_here:
  assumes c: "ident_cond p s"
  shows "\<exists>ms. rx_exec_all invalidIdentifier (i + run CWord s) (Some (s ! (run CWord s - 1))) (drop (run CWord s) s) = Some ms
           \<and> rx_exec_all invalidIdentifier i p s = Some ((i, ident_end i s) # ms)"
proof -
  have f: "rx_find invalidIdentifier i p s = Some (i, ident_end i s)"
    by (rule rx_find_ident_here[OF c])
  have l: "length (rest (ident_end i s)) < length s"
    using ident_cond_nonempty[OF c] by (simp add: ident_end_fields)
  obtain ms where ms: "rx_exec_all invalidIdentifier (i + run CWord s) (Some (s ! (run CWord s - 1))) (drop (run CWord s) s) = Some ms"
    using ident_total by blast
  have "rx_exec_all invalidIdentifier i p s = Some ((i, ident_end i s) # ms)"
    using rx_exec_all_Some[OF f l] ms by (simp add: ident_end_fields)
  with ms show ?thesis by blast
qed

lemma ident_exec_skip:
  assumes c: "\<not> ident_cond p (c # s)"
  shows "rx_exec_all invalidIdentifier i p (c # s) = rx_exec_all invalidIdentifier (Suc i) (Some c) s"
  by (rule rx_exec_all_skip) (use rx_find_ident_prog rx_find_ident_skip[OF c] in blast)+

lemma ident_scan_main:
  assumes ds: "ds \<noteq> []" "\<forall>c \<in> set ds. is_digit c" and post: "post = [] \<or> \<not> is_word (hd post)"
  shows "(if pre = [] then \<not> word_opt p else \<not> is_word (last pre)) \<Longrightarrow>
     \<exists>ms. rx_exec_all invalidIdentifier i p (pre @ ds @ post) = Some ms
          \<and> (2 \<le> length ds \<longrightarrow> (\<exists>m \<in> set ms. fst m = i + length pre \<and> match_length m = length ds))
          \<and> (length ds = 1 \<longrightarrow> (\<forall>m \<in> set ms. fst m + match_length m \<le> i + length pre \<or> i + length pre < fst m))"
proof (induction "length pre" arbitrary: i p pre rule: less_induct)
  case less
  show ?case
  proof (cases "pre = []")
    case True
    then have np: "\<not> word_opt p" using less.prems by simp
    have rw: "run CWord (ds @ post) = length ds" by (rule run_word_digits[OF ds(2) post])
    have rd: "1 \<le> run CDigit (ds @ post)" by (rule run_digit_pos[OF ds])
    show ?thesis
    proof (cases "2 \<le> length ds")
      case two: True
      then have c: "ident_cond p (ds @ post)" using np rw rd by (simp add: ident_cond_def)
      obtain ms where ms: "rx_exec_all invalidIdentifier i p (ds @ post) = Some ((i, ident_end i (ds @ post)) # ms)"
        using ident_exec_here[OF c, of i] by blast
      have "match_length (i, ident_end i (ds @ post)) = length ds"
        by (simp add: match_length_def ident_end_fields rw)
      then show ?thesis using True ms two by auto
    next
      case one: False
      have "length ds \<noteq> 0" using ds(1) by simp
      then have l1: "length ds = 1" using one by arith
      then obtain d where d: "ds = [d]" by (cases ds) auto
      have c: "\<not> ident_cond p (d # post)" using rw one d by (simp add: ident_cond_def)
      have e: "rx_exec_all invalidIdentifier i p (d # post) = rx_exec_all invalidIdentifier (Suc i) (Some d) post"
        by (rule ident_exec_skip[OF c])
      obtain ms where ms: "rx_exec_all invalidIdentifier (Suc i) (Some d) post = Some ms"
        "\<forall>m \<in> set ms. Suc i \<le> fst m"
        using ident_total by blast
      then have "\<forall>m \<in> set ms. i + length pre < fst m" using True by auto
      then show ?thesis using True d e ms(1) by auto
    qed
  next
    case False
    then obtain c pre' where pre: "pre = c # pre'" by (cases pre) auto
    have nl: "\<not> is_word (last pre)" using False less.prems by simp
    show ?thesis
    proof (cases "ident_cond p (pre @ ds @ post)")
      case True
      let ?s = "pre @ ds @ post"
      let ?r = "run CWord ?s"
      have r: "?r = run CWord pre" "run CWord pre < length pre"
        using run_word_pre[OF False nl, of "ds @ post"] by simp_all
      have r2: "2 \<le> ?r" using ident_cond_nonempty[OF True] by simp
      define pre2 where "pre2 = drop ?r pre"
      have p2: "pre2 \<noteq> []" "length pre2 < length pre" "last pre2 = last pre"
        "length pre2 + ?r = length pre"
        using r r2 unfolding pre2_def by (simp_all add: last_drop)
      have dr: "drop ?r ?s = pre2 @ ds @ post"
        using r unfolding pre2_def by simp
      obtain ms where ms:
        "rx_exec_all invalidIdentifier (i + ?r) (Some (?s ! (?r - 1))) (drop ?r ?s) = Some ms"
        "rx_exec_all invalidIdentifier i p ?s = Some ((i, ident_end i ?s) # ms)"
        using ident_exec_here[OF True, of i] by blast
      have cond2: "if pre2 = [] then \<not> word_opt (Some (?s ! (?r - 1))) else \<not> is_word (last pre2)"
        using p2 nl by simp
      obtain ms2 where ms2:
        "rx_exec_all invalidIdentifier (i + ?r) (Some (?s ! (?r - 1))) (pre2 @ ds @ post) = Some ms2"
        "2 \<le> length ds \<longrightarrow> (\<exists>m \<in> set ms2. fst m = i + ?r + length pre2 \<and> match_length m = length ds)"
        "length ds = 1 \<longrightarrow> (\<forall>m \<in> set ms2. fst m + match_length m \<le> i + ?r + length pre2 \<or> i + ?r + length pre2 < fst m)"
        using less.hyps[OF p2(2) cond2, of "i + ?r"] by blast
      have same: "ms2 = ms" using ms(1) ms2(1) dr by simp
      have idx: "i + ?r + length pre2 = i + length pre" using p2(4) by simp
      have hd: "fst (i, ident_end i ?s) + match_length (i, ident_end i ?s) \<le> i + length pre"
        using r by (simp add: match_length_def ident_end_fields)
      have a: "2 \<le> length ds \<longrightarrow> (\<exists>m \<in> set ((i, ident_end i ?s) # ms). fst m = i + length pre \<and> match_length m = length ds)"
        using ms2(2) same idx by auto
      have b: "length ds = 1 \<longrightarrow> (\<forall>m \<in> set ((i, ident_end i ?s) # ms).
           fst m + match_length m \<le> i + length pre \<or> i + length pre < fst m)"
        using ms2(3) same idx hd by auto
      show ?thesis using ms(2) a b by blast
    next
      case nc: False
      have e: "rx_exec_all invalidIdentifier i p (c # pre' @ ds @ post)
            = rx_exec_all invalidIdentifier (Suc i) (Some c) (pre' @ ds @ post)"
        using nc ident_exec_skip[of p c "pre' @ ds @ post" i] unfolding pre by simp
      have cond2: "if pre' = [] then \<not> word_opt (Some c) else \<not> is_word (last pre')"
        using nl unfolding pre by (cases "pre' = []") (simp_all add: word_opt_def)
      have "length pre' < length pre" unfolding pre by simp
      from less.hyps[OF this cond2, of "Suc i"]
      obtain ms where ms:
        "rx_exec_all invalidIdentifier (Suc i) (Some c) (pre' @ ds @ post) = Some ms"
        "2 \<le> length ds \<longrightarrow> (\<exists>m \<in> set ms. fst m = Suc i + length pre' \<and> match_length m = length ds)"
        "length ds = 1 \<longrightarrow> (\<forall>m \<in> set ms. fst m + match_length m \<le> Suc i + length pre' \<or> Suc i + length pre' < fst m)"
        by blast
      have idx: "Suc i + length pre' = i + length pre" unfolding pre by simp
      show ?thesis using e ms unfolding idx pre by auto
    qed
  qed
qed


text \<open>
  C10. A run of digits that stands alone on its line, with no word character directly
  before or after it, is reported by checkInvalidIdentifiers as an identifier that starts
  with a number when it has two or more digits: the Error's range is the run. A single
  digit that stands alone is exempt: no diagnostic of the rule covers its column.
\<close>

theorem leading_digit_run_reported:
  assumes "ds \<noteq> []" "\<forall>c \<in> set ds. is_digit c"
    and "pre = [] \<or> \<not> is_word (last pre)" and "post = [] \<or> \<not> is_word (hd post)"
  shows "\<exists>found. checkInvalidIdentifiers (pre @ ds @ post) lineNumber = Some found
       \<and> (2 \<le> length ds \<longrightarrow>
            Diagnostic (Range (int lineNumber) (int (length pre)) (int lineNumber)
                          (int (length pre) + int (length ds)))
              ''Identifiers cannot start with a number.'' Error \<in> set found)
       \<and> (length ds = 1 \<longrightarrow>
            (\<forall>d \<in> set found. endCharacter (d_range d) \<le> int (length pre)
                              \<or> int (length pre) < startCharacter (d_range d)))"
proof -
  have c: "if pre = [] then \<not> word_opt None else \<not> is_word (last pre)"
    using assms(3) by (cases "pre = []") (simp_all add: word_opt_def)
  obtain ms where ms:
    "rx_exec_all invalidIdentifier 0 None (pre @ ds @ post) = Some ms"
    "2 \<le> length ds \<longrightarrow> (\<exists>m \<in> set ms. fst m = 0 + length pre \<and> match_length m = length ds)"
    "length ds = 1 \<longrightarrow> (\<forall>m \<in> set ms. fst m + match_length m \<le> 0 + length pre \<or> 0 + length pre < fst m)"
    using ident_scan_main[OF assms(1,2,4) c, of 0] by blast
  have f: "checkInvalidIdentifiers (pre @ ds @ post) lineNumber = Some (map (identifierError lineNumber) ms)"
    by (simp add: checkInvalidIdentifiers_def ms(1))
  have a: "2 \<le> length ds \<longrightarrow>
            Diagnostic (Range (int lineNumber) (int (length pre)) (int lineNumber)
                          (int (length pre) + int (length ds)))
              ''Identifiers cannot start with a number.'' Error \<in> set (map (identifierError lineNumber) ms)"
  proof
    assume "2 \<le> length ds"
    then obtain m where m: "m \<in> set ms" "fst m = length pre" "match_length m = length ds"
      using ms(2) by auto
    have "identifierError lineNumber m =
        Diagnostic (Range (int lineNumber) (int (length pre)) (int lineNumber)
                          (int (length pre) + int (length ds)))
              ''Identifiers cannot start with a number.'' Error"
      by (simp add: identifierError_def m(2,3))
    then show "Diagnostic (Range (int lineNumber) (int (length pre)) (int lineNumber)
                          (int (length pre) + int (length ds)))
              ''Identifiers cannot start with a number.'' Error \<in> set (map (identifierError lineNumber) ms)"
      using m(1) by (metis imageI set_map)
  qed
  have b: "length ds = 1 \<longrightarrow>
            (\<forall>d \<in> set (map (identifierError lineNumber) ms). endCharacter (d_range d) \<le> int (length pre)
                              \<or> int (length pre) < startCharacter (d_range d))"
  proof (intro impI ballI)
    fix d assume l: "length ds = 1" and d: "d \<in> set (map (identifierError lineNumber) ms)"
    then obtain m where m: "m \<in> set ms" "d = identifierError lineNumber m" by auto
    have "fst m + match_length m \<le> length pre \<or> length pre < fst m"
      using ms(3) l m(1) by auto
    then show "endCharacter (d_range d) \<le> int (length pre) \<or> int (length pre) < startCharacter (d_range d)"
      unfolding m(2) by (auto simp: identifierError_def Diagnostic_def Range_def)
  qed
  show ?thesis using f a b by blast
qed

theorem leading_digit_run_reported_witness:
  "(\<exists>found. checkInvalidIdentifiers ''let x = 123;'' 0 = Some found
       \<and> Diagnostic (Range 0 8 0 11) ''Identifiers cannot start with a number.'' Error \<in> set found)
   \<and> (\<exists>found. checkInvalidIdentifiers ''1..10'' 0 = Some found
       \<and> list_all (\<lambda>d. endCharacter (d_range d) \<le> 0 \<or> 0 < startCharacter (d_range d)) found)"
proof -
  have h1: "''123'' \<noteq> []" "\<forall>c \<in> set ''123''. is_digit c"
    "''let x = '' = [] \<or> \<not> is_word (last ''let x = '')" "'';'' = [] \<or> \<not> is_word (hd '';'')"
    by (simp_all add: is_digit_def is_word_def)
  have h2: "''1'' \<noteq> []" "\<forall>c \<in> set ''1''. is_digit c"
    "[] = [] \<or> \<not> is_word (last [])" "''..10'' = [] \<or> \<not> is_word (hd ''..10'')"
    by (simp_all add: is_digit_def is_word_def)
  obtain f1 where f1: "checkInvalidIdentifiers (''let x = '' @ ''123'' @ '';'') 0 = Some f1"
    "2 \<le> length ''123'' \<longrightarrow>
       Diagnostic (Range (int 0) (int (length ''let x = '')) (int 0)
                          (int (length ''let x = '') + int (length ''123'')))
              ''Identifiers cannot start with a number.'' Error \<in> set f1"
    using leading_digit_run_reported[OF h1, of 0] by blast
  obtain f2 where f2: "checkInvalidIdentifiers ([] @ ''1'' @ ''..10'') 0 = Some f2"
    "length ''1'' = 1 \<longrightarrow>
            (\<forall>d \<in> set f2. endCharacter (d_range d) \<le> int (length ([] :: string))
                              \<or> int (length ([] :: string)) < startCharacter (d_range d))"
    using leading_digit_run_reported[OF h2, of 0] by blast
  have a: "checkInvalidIdentifiers ''let x = 123;'' 0 = Some f1
       \<and> Diagnostic (Range 0 8 0 11) ''Identifiers cannot start with a number.'' Error \<in> set f1"
    using f1 by simp
  have b: "checkInvalidIdentifiers ''1..10'' 0 = Some f2
       \<and> list_all (\<lambda>d. endCharacter (d_range d) \<le> 0 \<or> 0 < startCharacter (d_range d)) f2"
    using f2 by (simp add: list_all_iff)
  from a b show ?thesis by blast
qed

section \<open>The range rule\<close>









































end
